theory Spec2Isabelle
  imports Complex_Main
begin

section \<open>Semi-gradient Q-learning with linear function approximation\<close>

text \<open>
  A shallow embedding of \<^verbatim>\<open>q_learn_mountain_car.py\<close>. Python floats are read as
  real numbers, except in the float64 model of the update, which is there for the
  properties that rounding, overflow and NaN decide; a NaN result (the mean of an
  empty array) is the value \<open>None\<close>.
  Exceptions are values of a sum type. The feature pipeline and the environment are
  collaborators of the program that it only calls; they are parameters here.
\<close>

subsection \<open>Errors and the numpy operations the solver uses\<close>

datatype error = ValueError | IndexError

definition bindE :: "error + 'a \<Rightarrow> ('a \<Rightarrow> error + 'b) \<Rightarrow> error + 'b" where
  "bindE m f = (case m of Inl e \<Rightarrow> Inl e | Inr x \<Rightarrow> f x)"

text \<open>\<^verbatim>\<open>xs[i:j]\<close> for \<open>0 \<le> i\<close> and \<open>0 \<le> j\<close>: slicing clips at the end and never raises.\<close>

definition py_slice :: "nat \<Rightarrow> nat \<Rightarrow> 'a list \<Rightarrow> 'a list" where
  "py_slice i j xs = take (j - i) (drop i xs)"

text \<open>\<^verbatim>\<open>np.dot\<close> of two one-dimensional arrays: the lengths must agree.\<close>

definition np_dot :: "real list \<Rightarrow> real list \<Rightarrow> error + real" where
  "np_dot xs ys =
     (if length xs = length ys then Inr (sum_list (map2 (*) xs ys)) else Inl ValueError)"

text \<open>
  \<^verbatim>\<open>xs[i:j] = vs\<close> on a numpy array: the slice is clipped to the array, then \<open>vs\<close>
  must have the slice's length or be a single value that is broadcast over the slice.
\<close>

definition np_slice_assign :: "nat \<Rightarrow> nat \<Rightarrow> 'a list \<Rightarrow> 'a list \<Rightarrow> error + 'a list" where
  "np_slice_assign i j vs xs =
     (let lo = min i (length xs);
          hi = max lo (min j (length xs));
          m = hi - lo
      in if length vs = m then Inr (take lo xs @ vs @ drop hi xs)
         else if length vs = 1 then Inr (take lo xs @ replicate m (hd vs) @ drop hi xs)
         else Inl ValueError)"

text \<open>
  \<^verbatim>\<open>xs + ys\<close> on one-dimensional arrays: elementwise on equal lengths, an array of
  length one is broadcast over the other, any other pair of shapes raises.
\<close>

definition np_add :: "real list \<Rightarrow> real list \<Rightarrow> error + real list" where
  "np_add xs ys =
     (if length xs = length ys then Inr (map2 (+) xs ys)
      else if length xs = 1 then Inr (map (\<lambda>y. hd xs + y) ys)
      else if length ys = 1 then Inr (map (\<lambda>x. x + hd ys) xs)
      else Inl ValueError)"

text \<open>
  \<^verbatim>\<open>np.argmax\<close>: the index of the first occurrence of the maximum; an empty array
  raises. The scan keeps the best index and value seen so far and replaces them only
  on a strictly larger entry.
\<close>

fun argmax_scan :: "nat \<Rightarrow> real \<Rightarrow> nat \<Rightarrow> real list \<Rightarrow> nat" where
  "argmax_scan bi bv i [] = bi"
| "argmax_scan bi bv i (x # xs) =
     (if bv < x then argmax_scan i x (Suc i) xs else argmax_scan bi bv (Suc i) xs)"

definition np_argmax :: "real list \<Rightarrow> error + nat" where
  "np_argmax xs = (case xs of [] \<Rightarrow> Inl ValueError | x # rest \<Rightarrow> Inr (argmax_scan 0 x 1 rest))"

text \<open>\<^verbatim>\<open>np.mean\<close> of a list: NaN (here \<open>None\<close>) on the empty list, with a warning only.\<close>

definition np_mean :: "real list \<Rightarrow> real option" where
  "np_mean xs = (if xs = [] then None else Some (sum_list xs / real (length xs)))"

subsection \<open>The solver\<close>

text \<open>
  The fields of \<^verbatim>\<open>Solver\<close>. The data transformer and the radial basis function
  extractor are not part of this file of the program: \<open>get_features\<close>, which only
  composes them, is a field holding an arbitrary function from states to feature
  arrays.
\<close>

record 's solver =
  get_features :: "'s \<Rightarrow> real list"
  actions :: nat
  number_of_features :: nat
  theta :: "real list"
  gamma :: real
  learning_rate :: real

definition get_q_val :: "'s solver \<Rightarrow> real list \<Rightarrow> nat \<Rightarrow> error + real" where
  "get_q_val sv features action =
     np_dot features
       (py_slice (action * number_of_features sv) ((1 + action) * number_of_features sv)
          (theta sv))"

text \<open>The loop over \<^verbatim>\<open>range(self._actions)\<close>, stopping at the first exception.\<close>

fun q_vals_from :: "'s solver \<Rightarrow> real list \<Rightarrow> nat list \<Rightarrow> error + real list" where
  "q_vals_from sv features [] = Inr []"
| "q_vals_from sv features (a # as) =
     bindE (get_q_val sv features a)
       (\<lambda>q. bindE (q_vals_from sv features as) (\<lambda>qs. Inr (q # qs)))"

definition get_all_q_vals :: "'s solver \<Rightarrow> real list \<Rightarrow> error + real list" where
  "get_all_q_vals sv features = q_vals_from sv features [0 ..< actions sv]"

definition get_max_action :: "'s solver \<Rightarrow> 's \<Rightarrow> error + nat" where
  "get_max_action sv state =
     (let sparse_features = get_features sv state
      in bindE (get_all_q_vals sv sparse_features) np_argmax)"

definition get_state_action_features :: "'s solver \<Rightarrow> 's \<Rightarrow> nat \<Rightarrow> error + real list" where
  "get_state_action_features sv state action =
     (let state_features = get_features sv state;
          all_features = replicate (length state_features * actions sv) 0
      in np_slice_assign (action * length state_features) ((1 + action) * length state_features)
           state_features all_features)"

text \<open>
  \<^verbatim>\<open>update_theta\<close> returns the Bellman error and assigns \<^verbatim>\<open>self.theta\<close>: the model
  returns the error together with the updated solver.
\<close>

definition update_theta ::
  "'s solver \<Rightarrow> 's \<Rightarrow> nat \<Rightarrow> real \<Rightarrow> 's \<Rightarrow> bool \<Rightarrow> error + (real \<times> 's solver)" where
  "update_theta sv state action reward next_state dn =
     (let alpha = learning_rate sv;
          phi_s = get_features sv state;
          phi_s_prime = get_features sv next_state
      in bindE (get_q_val sv phi_s action) (\<lambda>Q_s_a.
         bindE (get_state_action_features sv state action) (\<lambda>phi_s_a.
         bindE (if dn then Inr reward
                else bindE (get_max_action sv next_state) (\<lambda>a_prime.
                     bindE (get_q_val sv phi_s_prime a_prime) (\<lambda>q_prime.
                     Inr (reward + gamma sv * q_prime)))) (\<lambda>Q_s_a_estimated.
         let bellman_error = Q_s_a_estimated - Q_s_a;
             gradient = phi_s_a
         in bindE (np_add (theta sv) (map (\<lambda>g. alpha * bellman_error * g) gradient)) (\<lambda>theta'.
            Inr (bellman_error, sv\<lparr>theta := theta'\<rparr>))))))"

subsection \<open>The update in float64 arithmetic\<close>

text \<open>
  The values of the program are IEEE 754 binary64 numbers, and two properties of
  \<^verbatim>\<open>update_theta\<close> depend on that: an overflow makes \<^verbatim>\<open>alpha * bellman_error\<close>
  infinite, and a small increment is absorbed when it is added to a weight. The solver
  is therefore given a second time with the arithmetic of the machine: a value is a
  finite real, an infinity or NaN, and every operation rounds its exact result to the
  nearest binary64 number, ties to the even significand, and to an infinity beyond the
  largest one. The sign of a zero is not modelled.
\<close>

datatype f64 = Fin real | PosInf | NegInf | NaN

text \<open>Rounding to the nearest integer, a tie to the even one.\<close>

definition round_half_even :: "real \<Rightarrow> int" where
  "round_half_even y =
     (let f = \<lfloor>y\<rfloor>
      in if y - of_int f < 1 / 2 then f
         else if 1 / 2 < y - of_int f then f + 1
         else if even f then f else f + 1)"

text \<open>
  Binade \<open>k\<close> holds the magnitudes below \<open>2 ^ (k - 1021)\<close> that the lower binades do
  not hold; its numbers are the multiples of \<open>2 ^ (k - 1074)\<close>. Binade 0 holds the
  subnormal numbers and the first normal binade, which have the same spacing; binade
  2045 ends at \<open>2 ^ 1024\<close>.
\<close>

definition quantum :: "nat \<Rightarrow> real" where
  "quantum k = 2 powi (int k - 1074)"

definition binade_top :: "nat \<Rightarrow> real" where
  "binade_top k = 2 powi (int k - 1021)"

definition grid :: "nat \<Rightarrow> real \<Rightarrow> real" where
  "grid k x = quantum k * of_int (round_half_even (x / quantum k))"

fun round_mag :: "nat \<Rightarrow> real \<Rightarrow> real" where
  "round_mag 0 x = grid 0 x"
| "round_mag (Suc k) x = (if binade_top k \<le> x then grid (Suc k) x else round_mag k x)"

text \<open>
  The rounded magnitude is 53 bits wide with no bound on the exponent above, so a
  magnitude that rounds to \<open>2 ^ 1024\<close> or more has overflowed.
\<close>

definition to_f64 :: "real \<Rightarrow> f64" where
  "to_f64 x =
     (let m = round_mag 2045 \<bar>x\<bar>
      in if 2 ^ 1024 \<le> m then (if 0 < x then PosInf else NegInf)
         else Fin (if x < 0 then - m else m))"

fun fneg :: "f64 \<Rightarrow> f64" where
  "fneg (Fin x) = Fin (- x)"
| "fneg PosInf = NegInf"
| "fneg NegInf = PosInf"
| "fneg NaN = NaN"

fun fadd :: "f64 \<Rightarrow> f64 \<Rightarrow> f64" where
  "fadd NaN y = NaN"
| "fadd x NaN = NaN"
| "fadd PosInf NegInf = NaN"
| "fadd NegInf PosInf = NaN"
| "fadd PosInf y = PosInf"
| "fadd x PosInf = PosInf"
| "fadd NegInf y = NegInf"
| "fadd x NegInf = NegInf"
| "fadd (Fin a) (Fin b) = to_f64 (a + b)"

definition fsub :: "f64 \<Rightarrow> f64 \<Rightarrow> f64" where
  "fsub x y = fadd x (fneg y)"

fun fmul :: "f64 \<Rightarrow> f64 \<Rightarrow> f64" where
  "fmul NaN y = NaN"
| "fmul x NaN = NaN"
| "fmul (Fin a) (Fin b) = to_f64 (a * b)"
| "fmul (Fin a) PosInf = (if a = 0 then NaN else if 0 < a then PosInf else NegInf)"
| "fmul (Fin a) NegInf = (if a = 0 then NaN else if 0 < a then NegInf else PosInf)"
| "fmul PosInf (Fin b) = (if b = 0 then NaN else if 0 < b then PosInf else NegInf)"
| "fmul NegInf (Fin b) = (if b = 0 then NaN else if 0 < b then NegInf else PosInf)"
| "fmul PosInf PosInf = PosInf"
| "fmul PosInf NegInf = NegInf"
| "fmul NegInf PosInf = NegInf"
| "fmul NegInf NegInf = PosInf"

fun fle :: "f64 \<Rightarrow> f64 \<Rightarrow> bool" where
  "fle NaN y = False"
| "fle x NaN = False"
| "fle NegInf y = True"
| "fle x PosInf = True"
| "fle PosInf y = False"
| "fle x NegInf = False"
| "fle (Fin a) (Fin b) = (a \<le> b)"

text \<open>A value that float64 can hold: an infinity, NaN, or a real that rounding leaves alone.\<close>

definition is_f64 :: "f64 \<Rightarrow> bool" where
  "is_f64 v = (case v of Fin x \<Rightarrow> to_f64 x = Fin x | _ \<Rightarrow> True)"

text \<open>
  \<^verbatim>\<open>np.dot\<close> on float64 arrays, the products added up in index order, and the sum of
  two arrays with its broadcasting.
\<close>

definition np_dot_f64 :: "f64 list \<Rightarrow> f64 list \<Rightarrow> error + f64" where
  "np_dot_f64 xs ys =
     (if length xs = length ys then Inr (foldl fadd (Fin 0) (map2 fmul xs ys))
      else Inl ValueError)"

definition np_add_f64 :: "f64 list \<Rightarrow> f64 list \<Rightarrow> error + f64 list" where
  "np_add_f64 xs ys =
     (if length xs = length ys then Inr (map2 fadd xs ys)
      else if length xs = 1 then Inr (map (\<lambda>y. fadd (hd xs) y) ys)
      else if length ys = 1 then Inr (map (\<lambda>x. fadd x (hd ys)) xs)
      else Inl ValueError)"

text \<open>
  \<^verbatim>\<open>np.argmax\<close> on float64 values: the scan replaces the best entry by one that is not
  less than or equal to it, so by a larger one or by NaN, and stops at a NaN, which
  counts as the maximum.
\<close>

fun argmax_scan_f64 :: "nat \<Rightarrow> f64 \<Rightarrow> nat \<Rightarrow> f64 list \<Rightarrow> nat" where
  "argmax_scan_f64 bi bv i [] = bi"
| "argmax_scan_f64 bi bv i (x # xs) =
     (if bv = NaN then bi
      else if \<not> fle x bv then argmax_scan_f64 i x (Suc i) xs
      else argmax_scan_f64 bi bv (Suc i) xs)"

definition np_argmax_f64 :: "f64 list \<Rightarrow> error + nat" where
  "np_argmax_f64 xs =
     (case xs of [] \<Rightarrow> Inl ValueError | x # rest \<Rightarrow> Inr (argmax_scan_f64 0 x 1 rest))"

record 's solver_f64 =
  get_features_f64 :: "'s \<Rightarrow> f64 list"
  actions_f64 :: nat
  number_of_features_f64 :: nat
  theta_f64 :: "f64 list"
  gamma_f64 :: f64
  learning_rate_f64 :: f64

definition get_q_val_f64 :: "'s solver_f64 \<Rightarrow> f64 list \<Rightarrow> nat \<Rightarrow> error + f64" where
  "get_q_val_f64 sv features action =
     np_dot_f64 features
       (py_slice (action * number_of_features_f64 sv) ((1 + action) * number_of_features_f64 sv)
          (theta_f64 sv))"

fun q_vals_from_f64 :: "'s solver_f64 \<Rightarrow> f64 list \<Rightarrow> nat list \<Rightarrow> error + f64 list" where
  "q_vals_from_f64 sv features [] = Inr []"
| "q_vals_from_f64 sv features (a # as) =
     bindE (get_q_val_f64 sv features a)
       (\<lambda>q. bindE (q_vals_from_f64 sv features as) (\<lambda>qs. Inr (q # qs)))"

definition get_all_q_vals_f64 :: "'s solver_f64 \<Rightarrow> f64 list \<Rightarrow> error + f64 list" where
  "get_all_q_vals_f64 sv features = q_vals_from_f64 sv features [0 ..< actions_f64 sv]"

definition get_max_action_f64 :: "'s solver_f64 \<Rightarrow> 's \<Rightarrow> error + nat" where
  "get_max_action_f64 sv state =
     (let sparse_features = get_features_f64 sv state
      in bindE (get_all_q_vals_f64 sv sparse_features) np_argmax_f64)"

definition get_state_action_features_f64 ::
  "'s solver_f64 \<Rightarrow> 's \<Rightarrow> nat \<Rightarrow> error + f64 list" where
  "get_state_action_features_f64 sv state action =
     (let state_features = get_features_f64 sv state;
          all_features = replicate (length state_features * actions_f64 sv) (Fin 0)
      in np_slice_assign (action * length state_features) ((1 + action) * length state_features)
           state_features all_features)"

definition update_theta_f64 ::
  "'s solver_f64 \<Rightarrow> 's \<Rightarrow> nat \<Rightarrow> f64 \<Rightarrow> 's \<Rightarrow> bool \<Rightarrow> error + (f64 \<times> 's solver_f64)" where
  "update_theta_f64 sv state action reward next_state dn =
     (let alpha = learning_rate_f64 sv;
          phi_s = get_features_f64 sv state;
          phi_s_prime = get_features_f64 sv next_state
      in bindE (get_q_val_f64 sv phi_s action) (\<lambda>Q_s_a.
         bindE (get_state_action_features_f64 sv state action) (\<lambda>phi_s_a.
         bindE (if dn then Inr reward
                else bindE (get_max_action_f64 sv next_state) (\<lambda>a_prime.
                     bindE (get_q_val_f64 sv phi_s_prime a_prime) (\<lambda>q_prime.
                     Inr (fadd reward (fmul (gamma_f64 sv) q_prime))))) (\<lambda>Q_s_a_estimated.
         let bellman_error = fsub Q_s_a_estimated Q_s_a;
             gradient = phi_s_a
         in bindE (np_add_f64 (theta_f64 sv) (map (fmul (fmul alpha bellman_error)) gradient))
              (\<lambda>theta'. Inr (bellman_error, sv\<lparr>theta_f64 := theta'\<rparr>))))))"

subsection \<open>Reward shaping\<close>

definition modify_reward :: "real \<Rightarrow> real" where
  "modify_reward reward = (let reward = reward - 1 in if reward = 0 then 100 else reward)"

subsection \<open>The environment and the random source\<close>

text \<open>
  The environment is an object the program only calls. Its methods change it, so the
  model passes its state \<open>'e\<close> along: \<open>reset_specific\<close> returns the first observation,
  \<open>env_step\<close> returns \<^verbatim>\<open>(next_state, reward, done)\<close> (the fourth component of
  \<^verbatim>\<open>env.step\<close> is discarded by the program). Rendering has no effect on the values
  computed and is left out.
\<close>

record ('e, 's) env =
  reset_specific :: "real \<Rightarrow> real \<Rightarrow> 'e \<Rightarrow> 's \<times> 'e"
  env_step :: "nat \<Rightarrow> 'e \<Rightarrow> ('s \<times> real \<times> bool) \<times> 'e"
  action_space_n :: nat
  min_position :: real
  goal_position :: real
  max_speed :: real

text \<open>
  The global generator \<^verbatim>\<open>np.random\<close> with its state \<open>'r\<close>: \<open>random_sample\<close> is the
  draw from the half-open unit interval that \<^verbatim>\<open>np.random.uniform\<close> scales, and
  \<open>choice n\<close> is the draw of \<^verbatim>\<open>np.random.choice(n)\<close> for positive \<open>n\<close>.
\<close>

record 'r np_random =
  random_sample :: "'r \<Rightarrow> real \<times> 'r"
  choice :: "nat \<Rightarrow> 'r \<Rightarrow> nat \<times> 'r"

definition np_uniform :: "'r np_random \<Rightarrow> real \<Rightarrow> real \<Rightarrow> 'r \<Rightarrow> real \<times> 'r" where
  "np_uniform rng low high r =
     (case random_sample rng r of (u, r') \<Rightarrow> (low + (high - low) * u, r'))"

definition np_choice :: "'r np_random \<Rightarrow> nat \<Rightarrow> 'r \<Rightarrow> error + (nat \<times> 'r)" where
  "np_choice rng n r = (if n = 0 then Inl ValueError else Inr (choice rng n r))"

subsection \<open>Running an episode\<close>

text \<open>
  The local variables of \<^verbatim>\<open>run_episode\<close> and the objects it changes (the solver, the
  environment, the generator). The field \<open>history\<close> is not in the program: it records,
  for each step taken, the action, the shaped reward and the flag \<^verbatim>\<open>done\<close>, so that
  properties of the sequence of actions can be stated.
\<close>

record ('e, 's, 'r) episode =
  ep_solver :: "'s solver"
  ep_env :: 'e
  ep_rng :: 'r
  state :: 's
  step :: nat
  episode_gain :: real
  deltas :: "real list"
  history :: "(nat \<times> real \<times> bool) list"

text \<open>
  The choice of the action. \<^verbatim>\<open>epsilon is not None and np.random.uniform() < epsilon\<close>
  draws only when an epsilon is given.
\<close>

definition choose_action ::
  "('e, 's) env \<Rightarrow> 'r np_random \<Rightarrow> real option \<Rightarrow> 's solver \<Rightarrow> 's \<Rightarrow> 'r \<Rightarrow> error + (nat \<times> 'r)" where
  "choose_action env rng epsilon sv s r =
     (case epsilon of
        None \<Rightarrow> bindE (get_max_action sv s) (\<lambda>action. Inr (action, r))
      | Some eps \<Rightarrow>
          (case np_uniform rng 0 1 r of (u, r') \<Rightarrow>
             if u < eps then np_choice rng (action_space_n env) r'
             else bindE (get_max_action sv s) (\<lambda>action. Inr (action, r'))))"

text \<open>
  One pass through the body of \<^verbatim>\<open>while True\<close> up to the exit test: the episode after
  the update, with the next state and the flag \<^verbatim>\<open>done\<close> of this step.
\<close>

definition loop_body ::
  "('e, 's) env \<Rightarrow> 'r np_random \<Rightarrow> bool \<Rightarrow> real option \<Rightarrow> ('e, 's, 'r) episode \<Rightarrow>
   error + (('e, 's, 'r) episode \<times> 's \<times> bool)" where
  "loop_body env rng is_train epsilon ep =
     bindE (choose_action env rng epsilon (ep_solver ep) (state ep) (ep_rng ep)) (\<lambda>(action, r').
     case env_step env action (ep_env ep) of ((next_state, reward1, dn), e') \<Rightarrow>
       let reward = modify_reward reward1;
           step' = step ep + 1;
           episode_gain' = episode_gain ep + reward
       in bindE (if is_train
                 then bindE (update_theta (ep_solver ep) (state ep) action reward next_state dn)
                        (\<lambda>(delta, sv'). Inr (deltas ep @ [delta], sv'))
                 else Inr (deltas ep, ep_solver ep)) (\<lambda>(deltas', sv').
          Inr (ep\<lparr>ep_solver := sv', ep_env := e', ep_rng := r', step := step',
                   episode_gain := episode_gain', deltas := deltas',
                   history := history ep @ [(action, reward, dn)]\<rparr>,
               next_state, dn)))"

text \<open>
  The loop. It has no bound of its own, so the model counts its passes down from
  \<open>fuel\<close>: \<open>None\<close> means that the loop is still running after \<open>fuel\<close> passes, \<open>Some\<close> is
  the exception raised or the episode at the \<^verbatim>\<open>return\<close>.
\<close>

fun run_loop ::
  "nat \<Rightarrow> ('e, 's) env \<Rightarrow> 'r np_random \<Rightarrow> bool \<Rightarrow> real option \<Rightarrow> int \<Rightarrow> ('e, 's, 'r) episode \<Rightarrow>
   (error + ('e, 's, 'r) episode) option" where
  "run_loop 0 env rng is_train epsilon max_steps ep = None"
| "run_loop (Suc fuel) env rng is_train epsilon max_steps ep =
     (case loop_body env rng is_train epsilon ep of
        Inl e \<Rightarrow> Some (Inl e)
      | Inr (ep', next_state, dn) \<Rightarrow>
          if dn \<or> int (step ep') = max_steps then Some (Inr ep')
          else run_loop fuel env rng is_train epsilon max_steps (ep'\<lparr>state := next_state\<rparr>))"

text \<open>The start state: drawn at random when training, fixed in position otherwise.\<close>

definition start_state ::
  "('e, 's) env \<Rightarrow> 'r np_random \<Rightarrow> bool \<Rightarrow> 'r \<Rightarrow> (real \<times> real) \<times> 'r" where
  "start_state env rng is_train r =
     (if is_train
      then (case np_uniform rng (min_position env) (goal_position env - 1 / 100) r of
              (start_position, r1) \<Rightarrow>
                (case np_uniform rng (- max_speed env) (max_speed env) r1 of
                   (start_velocity, r2) \<Rightarrow> ((start_position, start_velocity), r2)))
      else (case np_uniform rng (- max_speed env / 100) (max_speed env / 100) r of
              (start_velocity, r1) \<Rightarrow> ((- (1 / 2), start_velocity), r1)))"

definition init_episode ::
  "('e, 's) env \<Rightarrow> 'r np_random \<Rightarrow> 's solver \<Rightarrow> bool \<Rightarrow> 'e \<Rightarrow> 'r \<Rightarrow> ('e, 's, 'r) episode" where
  "init_episode env rng sv is_train e r =
     (case start_state env rng is_train r of ((start_position, start_velocity), r') \<Rightarrow>
        case reset_specific env start_position start_velocity e of (s, e') \<Rightarrow>
          \<lparr>ep_solver = sv, ep_env = e', ep_rng = r', state = s, step = 0,
           episode_gain = 0, deltas = [], history = []\<rparr>)"

text \<open>
  \<^verbatim>\<open>run_episode\<close> returns \<^verbatim>\<open>(episode_gain, np.mean(deltas))\<close>; the model pairs the
  returned value with the episode at the return, which holds the solver, the
  environment and the generator as the call leaves them.
\<close>

definition run_episode ::
  "nat \<Rightarrow> ('e, 's) env \<Rightarrow> 'r np_random \<Rightarrow> 's solver \<Rightarrow> bool \<Rightarrow> real option \<Rightarrow> int \<Rightarrow> 'e \<Rightarrow> 'r \<Rightarrow>
   (error + ((real \<times> real option) \<times> ('e, 's, 'r) episode)) option" where
  "run_episode fuel env rng sv is_train epsilon max_steps e r =
     map_option (map_sum id (\<lambda>ep. ((episode_gain ep, np_mean (deltas ep)), ep)))
       (run_loop fuel env rng is_train epsilon max_steps (init_episode env rng sv is_train e r))"

subsection \<open>The success rate of an evaluation block\<close>

text \<open>
  The evaluation block of the main loop, from the list of the ten test gains on:
  \<^verbatim>\<open>failures = np.sum(test_gains.count(-200)); successes = 10 - failures;
  SR = np.sum(successes) / 10\<close>.
\<close>

definition success_rate :: "real list \<Rightarrow> real" where
  "success_rate test_gains =
     (let failures = int (count_list test_gains (- 200));
          successes = 10 - failures
      in real_of_int successes / 10)"

text \<open>
  \<^verbatim>\<open>evaluate_criterion\<close>, which nothing calls, computes its rate differently:
  \<^verbatim>\<open>test_gains != -200\<close> compares a Python list with a number and is \<^verbatim>\<open>True\<close>,
  so \<^verbatim>\<open>test_gains[True]\<close> is the entry at index 1 and
  \<^verbatim>\<open>SR = np.sum(successes) / num_of_states\<close> is a tenth of that entry.
\<close>

definition evaluate_criterion_SR :: "real list \<Rightarrow> error + real" where
  "evaluate_criterion_SR test_gains =
     (let num_of_states = 10
      in if 1 < length test_gains then Inr (test_gains ! 1 / num_of_states) else Inl IndexError)"

subsection \<open>The state-action feature vector of the data model\<close>

text \<open>
  The vector the specification describes: the feature vector placed into the block of
  the chosen action and zero elsewhere. \<open>get_state_action_features\<close> above is the
  program's construction of it.
\<close>

definition block_features :: "nat \<Rightarrow> nat \<Rightarrow> real list \<Rightarrow> real list" where
  "block_features A a fs =
     replicate (a * length fs) 0 @ fs @ replicate ((A - Suc a) * length fs) 0"

definition block_features_f64 :: "nat \<Rightarrow> nat \<Rightarrow> f64 list \<Rightarrow> f64 list" where
  "block_features_f64 A a fs =
     replicate (a * length fs) (Fin 0) @ fs @ replicate ((A - Suc a) * length fs) (Fin 0)"

subsection \<open>Well-formed collaborators and what a run shows\<close>

text \<open>
  The invariant of the data model: at least one action, a weight vector of length
  \<open>A * F\<close>, and a feature pipeline that returns \<open>F\<close> features for every state.
\<close>

definition solver_ok :: "'s solver \<Rightarrow> bool" where
  "solver_ok sv \<longleftrightarrow>
     0 < actions sv \<and> length (theta sv) = actions sv * number_of_features sv \<and>
     (\<forall>s. length (get_features sv s) = number_of_features sv)"

text \<open>
  The contract of the generator: a sample of the unit interval is not negative, and
  \<^verbatim>\<open>choice(n)\<close> is below \<open>n\<close>.
\<close>

definition rng_ok :: "'r np_random \<Rightarrow> bool" where
  "rng_ok rng \<longleftrightarrow>
     (\<forall>r. 0 \<le> fst (random_sample rng r)) \<and> (\<forall>n r. 0 < n \<longrightarrow> fst (choice rng n r) < n)"

text \<open>An episode without the state of the generator.\<close>

definition without_rng ::
  "('e, 's, 'r) episode \<Rightarrow>
   's solver \<times> 'e \<times> 's \<times> nat \<times> real \<times> real list \<times> (nat \<times> real \<times> bool) list" where
  "without_rng ep =
     (ep_solver ep, ep_env ep, state ep, step ep, episode_gain ep, deltas ep, history ep)"

text \<open>What a caller of \<open>run_episode\<close> can see apart from the generator.\<close>

definition observed ::
  "(error + ((real \<times> real option) \<times> ('e, 's, 'r) episode)) option \<Rightarrow>
   (error + ((real \<times> real option) \<times> nat list \<times>
      's solver \<times> 'e \<times> 's \<times> nat \<times> real \<times> real list \<times> (nat \<times> real \<times> bool) list)) option" where
  "observed res =
     map_option (map_sum id (\<lambda>(ret, ep). (ret, map fst (history ep), without_rng ep))) res"

subsection \<open>The per-step procedure of the specification\<close>

text \<open>
  The episode as the specification describes it, a relation written from its words and
  not from the loop: select the action by the policy, step the environment, shape the
  reward, and only when training invoke the update and record its TD error; the
  episode ends on the step where the environment signals terminal or the step count
  reaches \<open>max_steps\<close>. From the solver, environment, generator and state before a
  step, with \<open>k\<close> steps taken so far, \<open>episode_steps\<close> gives the shaped rewards and the
  recorded TD errors of the steps from there to the end, and the solver, environment
  and generator at the end.
\<close>

inductive episode_steps ::
  "('e, 's) env \<Rightarrow> 'r np_random \<Rightarrow> bool \<Rightarrow> real option \<Rightarrow> int \<Rightarrow>
   's solver \<Rightarrow> 'e \<Rightarrow> 'r \<Rightarrow> 's \<Rightarrow> nat \<Rightarrow> real list \<Rightarrow> real list \<Rightarrow>
   's solver \<Rightarrow> 'e \<Rightarrow> 'r \<Rightarrow> bool"
  for env :: "('e, 's) env" and rng :: "'r np_random" and is_train :: bool
    and epsilon :: "real option" and max_steps :: int where
  last_step:
    "choose_action env rng epsilon sv s r = Inr (a, r') \<Longrightarrow>
     env_step env a e = ((ns, reward1, dn), e') \<Longrightarrow>
     (if is_train
      then \<exists>delta. update_theta sv s a (modify_reward reward1) ns dn = Inr (delta, sv') \<and>
             ds = [delta]
      else sv' = sv \<and> ds = []) \<Longrightarrow>
     dn \<or> int (Suc k) = max_steps \<Longrightarrow>
     episode_steps env rng is_train epsilon max_steps sv e r s k
       [modify_reward reward1] ds sv' e' r'"
| next_step:
    "choose_action env rng epsilon sv s r = Inr (a, r') \<Longrightarrow>
     env_step env a e = ((ns, reward1, dn), e') \<Longrightarrow>
     (if is_train
      then \<exists>delta. update_theta sv s a (modify_reward reward1) ns dn = Inr (delta, sv') \<and>
             ds = [delta]
      else sv' = sv \<and> ds = []) \<Longrightarrow>
     \<not> (dn \<or> int (Suc k) = max_steps) \<Longrightarrow>
     episode_steps env rng is_train epsilon max_steps sv' e' r' ns (Suc k)
       rewards ds' sv'' e'' r'' \<Longrightarrow>
     episode_steps env rng is_train epsilon max_steps sv e r s k
       (modify_reward reward1 # rewards) (ds @ ds') sv'' e'' r''"

subsection \<open>Small instances\<close>

text \<open>
  A solver with two actions and two features per state; a float64 solver with the
  learning rate 8, and one with a single weight 1 on a single feature 1.
\<close>

definition demo_solver :: "nat solver" where
  "demo_solver =
     \<lparr>get_features = (\<lambda>s. [1, real s]), actions = 2, number_of_features = 2,
      theta = [0, 0, 1, 0], gamma = 1 / 2, learning_rate = 1 / 10\<rparr>"

definition overflow_solver :: "nat solver_f64" where
  "overflow_solver =
     \<lparr>get_features_f64 = (\<lambda>s. [Fin 1, Fin (1 / 2)]), actions_f64 = 2,
      number_of_features_f64 = 2, theta_f64 = [Fin 0, Fin 0, Fin 0, Fin 0],
      gamma_f64 = Fin (1 / 2), learning_rate_f64 = Fin 8\<rparr>"


text \<open>
  An environment whose state counts the sum of the actions taken plus one per step;
  it pays the raw reward 1 and signals \<^verbatim>\<open>done\<close> once the count has reached 3. A
  second one never signals \<^verbatim>\<open>done\<close>. A generator that always draws one half and
  the action 0.
\<close>

definition demo_env :: "(nat, nat) env" where
  "demo_env =
     \<lparr>reset_specific = (\<lambda>p v e. (0, 0)),
      env_step = (\<lambda>a e. ((Suc (e + a), if 3 \<le> Suc (e + a) then 1 else 0, 3 \<le> Suc (e + a)),
                          Suc (e + a))),
      action_space_n = 2, min_position = - (6 / 5), goal_position = 1 / 2,
      max_speed = 7 / 100\<rparr>"

definition endless_env :: "(nat, nat) env" where
  "endless_env = demo_env\<lparr>env_step := (\<lambda>a e. ((Suc e, 0, False), Suc e))\<rparr>"

definition demo_rng :: "nat np_random" where
  "demo_rng = \<lparr>random_sample = (\<lambda>r. (1 / 2, Suc r)), choice = (\<lambda>n r. (0, Suc r))\<rparr>"

section \<open>Properties\<close>

subsection \<open>Auxiliary facts\<close>

lemma bindE_Inr [simp]: "bindE (Inr x) f = f x"
  by (simp add: bindE_def)

lemma bindE_Inl [simp]: "bindE (Inl e) f = Inl e"
  by (simp add: bindE_def)

lemma bindE_eq_Inr: "bindE m f = Inr y \<longleftrightarrow> (\<exists>x. m = Inr x \<and> f x = Inr y)"
  by (cases m) auto

lemma block_bound: "a < A \<Longrightarrow> (1 + a) * F \<le> A * (F::nat)"
proof -
  assume "a < A"
  then have "Suc a \<le> A" by simp
  then have "Suc a * F \<le> A * F" by (rule mult_le_mono1)
  then show ?thesis by simp
qed

lemma length_py_slice_block:
  "length xs = A * F \<Longrightarrow> a < A \<Longrightarrow> length (py_slice (a * F) ((1 + a) * F) xs) = F"
  using block_bound [of a A F] by (simp add: py_slice_def)

lemma nth_py_slice_block:
  "length xs = A * F \<Longrightarrow> a < A \<Longrightarrow> j < F \<Longrightarrow> py_slice (a * F) ((1 + a) * F) xs ! j = xs ! (a * F + j)"
  using block_bound [of a A F] by (simp add: py_slice_def)

lemma get_q_val_wf:
  "length (theta sv) = actions sv * number_of_features sv \<Longrightarrow> a < actions sv \<Longrightarrow>
   length fs = number_of_features sv \<Longrightarrow>
   get_q_val sv fs a = Inr (sum_list (map2 (*) fs
      (py_slice (a * number_of_features sv) ((1 + a) * number_of_features sv) (theta sv))))"
  using length_py_slice_block [of "theta sv" "actions sv" "number_of_features sv" a]
  by (simp add: get_q_val_def np_dot_def)

lemma q_vals_from_wf:
  assumes "length (theta sv) = actions sv * number_of_features sv"
    and "length fs = number_of_features sv"
  shows "\<forall>a \<in> set as. a < actions sv \<Longrightarrow>
    \<exists>qs. q_vals_from sv fs as = Inr qs \<and> length qs = length as \<and>
      (\<forall>i < length as. get_q_val sv fs (as ! i) = Inr (qs ! i))"
proof (induction as)
  case Nil
  then show ?case by simp
next
  case (Cons a as)
  then obtain qs where qs: "q_vals_from sv fs as = Inr qs" "length qs = length as"
    "\<forall>i < length as. get_q_val sv fs (as ! i) = Inr (qs ! i)" by auto
  from Cons.prems have "a < actions sv" by simp
  then obtain q where q: "get_q_val sv fs a = Inr q"
    using get_q_val_wf [OF assms(1) _ assms(2)] by blast
  have "\<forall>i < length (a # as). get_q_val sv fs ((a # as) ! i) = Inr ((q # qs) ! i)"
    using q qs(3) by (auto simp: nth_Cons split: nat.splits)
  then show ?case using q qs by simp
qed

lemma get_all_q_vals_wf:
  assumes "length (theta sv) = actions sv * number_of_features sv"
    and "length fs = number_of_features sv"
  shows "\<exists>qs. get_all_q_vals sv fs = Inr qs \<and> length qs = actions sv \<and>
      (\<forall>a < actions sv. get_q_val sv fs a = Inr (qs ! a))"
  using q_vals_from_wf [OF assms, of "[0 ..< actions sv]"]
  by (auto simp: get_all_q_vals_def)

lemma argmax_scan_first_max:
  assumes "ys = pre @ xs" "i = length pre" "bi < i" "ys ! bi = bv"
    "\<forall>j < i. ys ! j \<le> bv" "\<forall>j < bi. ys ! j < bv"
  shows "argmax_scan bi bv i xs < length ys \<and>
    (\<forall>j < length ys. ys ! j \<le> ys ! argmax_scan bi bv i xs) \<and>
    (\<forall>j < argmax_scan bi bv i xs. ys ! j < ys ! argmax_scan bi bv i xs)"
  using assms
proof (induction xs arbitrary: bi bv i pre)
  case Nil
  then show ?case by auto
next
  case (Cons x xs)
  have ysi: "ys ! i = x" using Cons.prems by simp
  have ys': "ys = (pre @ [x]) @ xs" "Suc i = length (pre @ [x])" using Cons.prems by simp_all
  show ?case
  proof (cases "bv < x")
    case True
    have a: "\<forall>j < Suc i. ys ! j \<le> x"
      using Cons.prems(5) True ysi by (auto simp: less_Suc_eq)
    have b: "\<forall>j < i. ys ! j < x"
      using Cons.prems(5) True by force
    from Cons.IH [OF ys' _ ysi a b] True show ?thesis by simp
  next
    case False
    have a: "\<forall>j < Suc i. ys ! j \<le> bv"
      using Cons.prems(5) False ysi by (auto simp: less_Suc_eq)
    have c: "bi < Suc i" using Cons.prems(3) by simp
    from Cons.IH [OF ys' c Cons.prems(4) a Cons.prems(6)] False show ?thesis by simp
  qed
qed

lemma np_argmax_first_max:
  assumes "qs \<noteq> []"
  shows "\<exists>k. np_argmax qs = Inr k \<and> k < length qs \<and> (\<forall>j < length qs. qs ! j \<le> qs ! k) \<and>
    (\<forall>j < k. qs ! j < qs ! k)"
proof -
  from assms obtain x rest where qs: "qs = x # rest" by (cases qs) auto
  have "\<forall>j < (1::nat). qs ! j \<le> x" using qs by simp
  from argmax_scan_first_max [of qs "[x]" rest 1 0 x] this qs
  show ?thesis by (simp add: np_argmax_def)
qed

lemma state_action_features_wf:
  assumes "a < actions sv"
  shows "get_state_action_features sv s a =
     Inr (replicate (a * length (get_features sv s)) 0 @ get_features sv s @
          replicate ((actions sv - Suc a) * length (get_features sv s)) 0)"
proof -
  let ?n = "length (get_features sv s)"
  have le: "(1 + a) * ?n \<le> ?n * actions sv"
    using block_bound [OF assms, of ?n] by (simp add: mult.commute)
  have le2: "a * ?n \<le> ?n * actions sv"
    using assms by (simp add: mult.commute)
  have eq: "?n * actions sv - (?n + a * ?n) = (actions sv - Suc a) * ?n"
    by (simp add: diff_mult_distrib algebra_simps)
  show ?thesis
    using le le2 eq assms
    by (simp add: get_state_action_features_def np_slice_assign_def Let_def min_def max_def)
qed

lemma nth_state_action_features:
  assumes "a < A" "i < A * length fs"
  shows "(replicate (a * length fs) 0 @ fs @ replicate ((A - Suc a) * length fs) (0::real)) ! i =
     (if a * length fs \<le> i \<and> i < (1 + a) * length fs then fs ! (i - a * length fs) else 0)"
proof -
  have "(1 + a) * length fs \<le> A * length fs" using block_bound [OF assms(1)] .
  then have "i - a * length fs - length fs < (A - Suc a) * length fs"
    if "\<not> i < (1 + a) * length fs"
    using that assms(2) by (simp add: diff_mult_distrib)
  then show ?thesis
    by (auto simp: nth_append)
qed

lemma length_state_action_features:
  assumes "a < A"
  shows "length (replicate (a * length fs) 0 @ fs @ replicate ((A - Suc a) * length fs) (0::real))
     = A * length fs"
proof -
  have "(1 + a) * length fs \<le> A * length fs" using block_bound [OF assms] .
  then show ?thesis by (simp add: diff_mult_distrib)
qed

lemma get_max_action_wf:
  assumes len: "length (theta sv) = actions sv * number_of_features sv"
    and fs: "length (get_features sv s) = number_of_features sv"
    and pos: "0 < actions sv"
  shows "\<exists>k qs. get_max_action sv s = Inr k \<and> get_all_q_vals sv (get_features sv s) = Inr qs \<and>
    length qs = actions sv \<and> (\<forall>a < actions sv. get_q_val sv (get_features sv s) a = Inr (qs ! a)) \<and>
    k < actions sv \<and> (\<forall>j < actions sv. qs ! j \<le> qs ! k) \<and> (\<forall>j < k. qs ! j < qs ! k)"
proof -
  from get_all_q_vals_wf [OF len fs] obtain qs where
    qs: "get_all_q_vals sv (get_features sv s) = Inr qs" "length qs = actions sv"
      "\<forall>a < actions sv. get_q_val sv (get_features sv s) a = Inr (qs ! a)" by blast
  from qs(2) pos have "qs \<noteq> []" by auto
  from np_argmax_first_max [OF this] obtain k where
    k: "np_argmax qs = Inr k" "k < length qs" "\<forall>j < length qs. qs ! j \<le> qs ! k"
      "\<forall>j < k. qs ! j < qs ! k" by blast
  have "get_max_action sv s = Inr k"
    using qs(1) k(1) by (simp add: get_max_action_def)
  with qs k show ?thesis by auto
qed

lemma update_theta_wf:
  assumes len: "length (theta sv) = actions sv * number_of_features sv"
    and fs: "length (get_features sv s) = number_of_features sv"
    and fs': "length (get_features sv s') = number_of_features sv"
    and a: "a < actions sv"
  shows "\<exists>Q target. get_q_val sv (get_features sv s) a = Inr Q \<and>
    (if dn then target = r
     else \<exists>a' q'. get_max_action sv s' = Inr a' \<and> get_q_val sv (get_features sv s') a' = Inr q' \<and>
            target = r + gamma sv * q') \<and>
    update_theta sv s a r s' dn =
      Inr (target - Q,
           sv\<lparr>theta := map2 (+) (theta sv)
                  (map (\<lambda>g. learning_rate sv * (target - Q) * g)
                     (block_features (actions sv) a (get_features sv s)))\<rparr>)"
proof -
  from get_q_val_wf [OF len a fs] obtain Q where
    Q: "get_q_val sv (get_features sv s) a = Inr Q" by blast
  have saf: "get_state_action_features sv s a =
      Inr (block_features (actions sv) a (get_features sv s))"
    using state_action_features_wf [OF a] by (simp add: block_features_def)
  have lsaf: "length (block_features (actions sv) a (get_features sv s)) = length (theta sv)"
    using length_state_action_features [OF a, of "get_features sv s"] len fs
    by (simp add: block_features_def)
  have add: "np_add (theta sv) (map f (block_features (actions sv) a (get_features sv s))) =
      Inr (map2 (+) (theta sv) (map f (block_features (actions sv) a (get_features sv s))))" for f
    using lsaf by (simp add: np_add_def)
  show ?thesis
  proof (cases dn)
    case True
    then have "update_theta sv s a r s' dn =
      Inr (r - Q,
           sv\<lparr>theta := map2 (+) (theta sv)
                  (map (\<lambda>g. learning_rate sv * (r - Q) * g)
                     (block_features (actions sv) a (get_features sv s)))\<rparr>)"
      using Q saf add by (simp add: update_theta_def Let_def)
    with Q True show ?thesis by auto
  next
    case False
    from a have pos: "0 < actions sv" by simp
    from get_max_action_wf [OF len fs' pos] obtain a' qs where
      a': "get_max_action sv s' = Inr a'" "a' < actions sv"
        "\<forall>a < actions sv. get_q_val sv (get_features sv s') a = Inr (qs ! a)" by blast
    then have q': "get_q_val sv (get_features sv s') a' = Inr (qs ! a')" by simp
    have "update_theta sv s a r s' dn =
      Inr (r + gamma sv * qs ! a' - Q,
           sv\<lparr>theta := map2 (+) (theta sv)
                  (map (\<lambda>g. learning_rate sv * (r + gamma sv * qs ! a' - Q) * g)
                     (block_features (actions sv) a (get_features sv s)))\<rparr>)"
      using Q saf add a'(1) q' False by (simp add: update_theta_def Let_def)
    with Q False a'(1) q' show ?thesis by auto
  qed
qed

lemma other_block_disjoint:
  assumes "b \<noteq> a" "j < (F::nat)"
  shows "\<not> (a * F \<le> b * F + j \<and> b * F + j < (1 + a) * F)"
proof (cases "b < a")
  case True
  then have "Suc b \<le> a" by simp
  then have "Suc b * F \<le> a * F" by (rule mult_le_mono1)
  then show ?thesis using assms(2) by simp
next
  case False
  with assms(1) have "Suc a \<le> b" by simp
  then have "Suc a * F \<le> b * F" by (rule mult_le_mono1)
  then show ?thesis by simp
qed

lemma count_list_filter: "count_list xs y = length (filter (\<lambda>x. x = y) xs)"
  by (induction xs) auto

lemma count_list_complement: "length (filter (\<lambda>x. x \<noteq> y) xs) + count_list xs y = length xs"
  by (induction xs) auto

subsection \<open>The update rule\<close>

text \<open>
  C1: on a solver whose weight vector has length \<open>A * F\<close>, with feature vectors of
  length \<open>F\<close> and an action below \<open>A\<close>, \<open>update_theta\<close> computes the TD error
  \<open>delta = target - Q(state, action)\<close>, where the target is the reward on a terminal
  transition and \<open>reward + gamma * Q(next_state, greedy action of next_state)\<close>
  otherwise, sets the weights to \<open>W + alpha * delta * phi\<close> for the state-action feature
  vector \<open>phi\<close> of the state and the action, and returns \<open>delta\<close>.
\<close>

theorem update_theta_td_error:
  assumes "length (theta sv) = actions sv * number_of_features sv"
    and "length (get_features sv s) = number_of_features sv"
    and "length (get_features sv s') = number_of_features sv"
    and "a < actions sv"
  shows "\<exists>Q target phi_s_a delta sv'.
    get_q_val sv (get_features sv s) a = Inr Q \<and>
    (if dn then target = r
     else \<exists>a' q'. get_max_action sv s' = Inr a' \<and> get_q_val sv (get_features sv s') a' = Inr q' \<and>
            target = r + gamma sv * q') \<and>
    delta = target - Q \<and>
    get_state_action_features sv s a = Inr phi_s_a \<and>
    update_theta sv s a r s' dn = Inr (delta, sv') \<and>
    sv' = sv\<lparr>theta := map2 (+) (theta sv) (map (\<lambda>g. learning_rate sv * delta * g) phi_s_a)\<rparr>"
proof -
  from update_theta_wf [OF assms, of dn r] obtain Q target where
    *: "get_q_val sv (get_features sv s) a = Inr Q"
      "if dn then target = r
       else \<exists>a' q'. get_max_action sv s' = Inr a' \<and> get_q_val sv (get_features sv s') a' = Inr q' \<and>
            target = r + gamma sv * q'"
      "update_theta sv s a r s' dn =
        Inr (target - Q,
           sv\<lparr>theta := map2 (+) (theta sv)
                  (map (\<lambda>g. learning_rate sv * (target - Q) * g)
                     (block_features (actions sv) a (get_features sv s)))\<rparr>)"
    by blast
  have saf: "get_state_action_features sv s a =
      Inr (block_features (actions sv) a (get_features sv s))"
    using state_action_features_wf [OF assms(4)] by (simp add: block_features_def)
  from * saf show ?thesis by blast
qed



theorem update_theta_td_error_witness:
  "\<exists>sv'. update_theta demo_solver 3 0 (- 1) 1 False = Inr (- (1 / 2), sv') \<and>
     theta sv' = [- (1 / 20), - (3 / 20), 1, 0]"
proof -
  have h: "length (theta demo_solver) = actions demo_solver * number_of_features demo_solver"
    "length (get_features demo_solver 3) = number_of_features demo_solver"
    "length (get_features demo_solver 1) = number_of_features demo_solver"
    "0 < actions demo_solver"
    by (simp_all add: demo_solver_def)
  have q: "get_q_val demo_solver (get_features demo_solver 3) 0 = Inr 0"
    by code_simp
  have m: "get_max_action demo_solver 1 = Inr 1"
    by code_simp
  have q': "get_q_val demo_solver (get_features demo_solver 1) 1 = Inr 1"
    by code_simp
  have f: "get_state_action_features demo_solver 3 0 = Inr [1, 3, 0, 0]"
    by code_simp
  from update_theta_td_error [OF h, of False "- 1"] q q' m f
  show ?thesis
    by (auto simp add: demo_solver_def)
qed

subsection \<open>Auxiliary facts about float64 arithmetic\<close>

lemma quantum_pos: "0 < quantum k"
  by (simp add: quantum_def)

lemma binade_top_quantum: "binade_top k = quantum k * 2 ^ 53"
proof -
  have "(2::real) powi (int k - 1074 + 53) = 2 powi (int k - 1074) * 2 powi 53"
    by (rule power_int_add) simp
  then show ?thesis by (simp add: binade_top_def quantum_def)
qed

lemma binade_top_quantum_Suc: "binade_top k = quantum (Suc k) * 2 ^ 52"
proof -
  have "(2::real) powi (int (Suc k) - 1074 + 52) = 2 powi (int (Suc k) - 1074) * 2 powi 52"
    by (rule power_int_add) simp
  then show ?thesis by (simp add: binade_top_def quantum_def)
qed

lemma binade_top_Suc: "binade_top (Suc k) = 2 * binade_top k"
proof -
  have "(2::real) powi (int k - 1021 + 1) = 2 powi (int k - 1021) * 2 powi 1"
    by (rule power_int_add) simp
  then show ?thesis by (simp add: binade_top_def add.commute)
qed

lemma binade_top_pos: "0 < binade_top k"
  by (simp add: binade_top_def)

lemma binade_top_mono: "j \<le> k \<Longrightarrow> binade_top j \<le> binade_top k"
proof (induction k)
  case 0
  then show ?case by simp
next
  case (Suc k)
  show ?case
  proof (cases "j = Suc k")
    case True
    then show ?thesis by simp
  next
    case False
    with Suc.prems have "j \<le> k" by simp
    then have "binade_top j \<le> binade_top k" by (rule Suc.IH)
    with binade_top_pos [of k] show ?thesis by (simp add: binade_top_Suc)
  qed
qed

lemma round_half_even_int [simp]: "round_half_even (of_int n) = n"
  by (simp add: round_half_even_def)

lemma round_half_even_bounds: "\<lfloor>y\<rfloor> \<le> round_half_even y \<and> round_half_even y \<le> \<lfloor>y\<rfloor> + 1"
  by (simp add: round_half_even_def Let_def)

lemma round_half_even_mono: "y \<le> z \<Longrightarrow> round_half_even y \<le> round_half_even z"
proof -
  assume yz: "y \<le> z"
  then have fl: "\<lfloor>y\<rfloor> \<le> \<lfloor>z\<rfloor>" by (rule floor_mono)
  show ?thesis
  proof (cases "\<lfloor>y\<rfloor> = \<lfloor>z\<rfloor>")
    case True
    with yz show ?thesis
      by (auto simp: round_half_even_def Let_def)
  next
    case False
    with fl have "\<lfloor>y\<rfloor> + 1 \<le> \<lfloor>z\<rfloor>" by simp
    with round_half_even_bounds [of y] round_half_even_bounds [of z] show ?thesis by linarith
  qed
qed

lemma grid_multiple [simp]: "grid k (quantum k * of_int n) = quantum k * of_int n"
  using quantum_pos [of k] by (simp add: grid_def)

lemma grid_mono: "x \<le> y \<Longrightarrow> grid k x \<le> grid k y"
proof -
  assume "x \<le> y"
  then have "x / quantum k \<le> y / quantum k"
    using quantum_pos [of k] by (simp add: divide_right_mono)
  then have "round_half_even (x / quantum k) \<le> round_half_even (y / quantum k)"
    by (rule round_half_even_mono)
  then show ?thesis
    using quantum_pos [of k] by (simp add: grid_def)
qed

lemma grid_zero [simp]: "grid k 0 = 0"
  using round_half_even_int [of 0] by (simp add: grid_def)

lemma grid_binade_top [simp]: "grid k (binade_top k) = binade_top k"
  using grid_multiple [of k "2 ^ 53"] by (simp add: binade_top_quantum)

lemma grid_Suc_binade_top [simp]: "grid (Suc k) (binade_top k) = binade_top k"
  using grid_multiple [of "Suc k" "2 ^ 52"] by (simp add: binade_top_quantum_Suc)

lemma round_mag_le_top: "x < binade_top k \<Longrightarrow> round_mag k x \<le> binade_top k"
proof (induction k)
  case 0
  then have "grid 0 x \<le> grid 0 (binade_top 0)" by (intro grid_mono) simp
  then show ?case by simp
next
  case (Suc k)
  show ?case
  proof (cases "binade_top k \<le> x")
    case True
    from Suc.prems have "grid (Suc k) x \<le> grid (Suc k) (binade_top (Suc k))"
      by (intro grid_mono) simp
    with True show ?thesis by simp
  next
    case False
    then have "round_mag k x \<le> binade_top k" by (intro Suc.IH) simp
    also have "\<dots> \<le> binade_top (Suc k)" by (rule binade_top_mono) simp
    finally show ?thesis using False by simp
  qed
qed

lemma round_mag_mono: "x \<le> y \<Longrightarrow> round_mag k x \<le> round_mag k y"
proof (induction k)
  case 0
  then show ?case by (simp add: grid_mono)
next
  case (Suc k)
  show ?case
  proof (cases "binade_top k \<le> x")
    case True
    with Suc.prems have "binade_top k \<le> y" by simp
    with True Suc.prems show ?thesis by (simp add: grid_mono)
  next
    case False
    show ?thesis
    proof (cases "binade_top k \<le> y")
      case True
      from False have "round_mag k x \<le> binade_top k" by (intro round_mag_le_top) simp
      also have "\<dots> = grid (Suc k) (binade_top k)" by simp
      also have "\<dots> \<le> grid (Suc k) y" using True by (rule grid_mono)
      finally show ?thesis using False True by simp
    next
      case F2: False
      with False Suc show ?thesis by simp
    qed
  qed
qed

lemma round_mag_zero [simp]: "round_mag k 0 = 0"
  by (induction k) (simp_all add: binade_top_pos not_le)


lemma round_mag_lowest: "x < binade_top 0 \<Longrightarrow> round_mag n x = grid 0 x"
proof (induction n)
  case 0
  then show ?case by simp
next
  case (Suc n)
  have "binade_top 0 \<le> binade_top n" by (rule binade_top_mono) simp
  with Suc show ?case by simp
qed

lemma round_mag_in_binade:
  "binade_top k \<le> x \<Longrightarrow> x < binade_top (Suc k) \<Longrightarrow> Suc k \<le> n \<Longrightarrow>
   round_mag n x = grid (Suc k) x"
proof (induction n)
  case 0
  then show ?case by simp
next
  case (Suc n)
  show ?case
  proof (cases "Suc k = Suc n")
    case True
    with Suc.prems show ?thesis by simp
  next
    case False
    with Suc.prems have le: "Suc k \<le> n" by simp
    then have "binade_top (Suc k) \<le> binade_top n" by (rule binade_top_mono)
    with Suc.prems(2) have "\<not> binade_top n \<le> x" by simp
    with Suc.IH [OF Suc.prems(1,2) le] show ?thesis by simp
  qed
qed

lemma to_f64_zero [simp]: "to_f64 0 = Fin 0"
  by (simp add: to_f64_def)

lemma to_f64_not_NaN [simp]: "to_f64 x \<noteq> NaN"
  by (simp add: to_f64_def Let_def)


lemma binade_top_2045: "binade_top 2045 = 2 ^ 1024"
  by (simp add: binade_top_def)

lemma to_f64_overflow: "2 ^ 1024 \<le> x \<Longrightarrow> to_f64 x = PosInf"
proof -
  assume x: "2 ^ 1024 \<le> x"
  have "round_mag 2045 (binade_top 2045) \<le> round_mag 2045 \<bar>x\<bar>"
    using x by (intro round_mag_mono) (simp add: binade_top_2045)
  moreover have "round_mag (Suc k) (binade_top (Suc k)) = binade_top (Suc k)" for k
    using binade_top_mono [of k "Suc k"] by simp
  from this [of 2044] have "round_mag 2045 (binade_top 2045) = binade_top 2045"
    by simp
  moreover have "0 < x" using x by (rule less_le_trans [rotated]) simp
  ultimately show ?thesis
    by (simp add: to_f64_def binade_top_2045)
qed

lemma to_f64_minus: "to_f64 (- x) = fneg (to_f64 x)"
  by (cases "x = 0") (auto simp: to_f64_def Let_def)

lemma to_f64_eval:
  assumes "binade_top k \<le> x" "x < binade_top (Suc k)" "Suc k \<le> 2045"
  shows "to_f64 x = (if 2 ^ 1024 \<le> grid (Suc k) x then PosInf else Fin (grid (Suc k) x))"
proof -
  have "0 < x" using binade_top_pos [of k] assms(1) by simp
  moreover have "round_mag 2045 x = grid (Suc k) x"
    using assms by (rule round_mag_in_binade)
  ultimately show ?thesis by (simp add: to_f64_def)
qed

lemma to_f64_pow_1023: "to_f64 (2 ^ 1023) = Fin (2 ^ 1023)"
  using to_f64_eval [of 2044 "2 ^ 1023"]
  by (simp add: binade_top_def grid_def quantum_def round_half_even_def)

lemma to_f64_1: "to_f64 1 = Fin 1"
  using to_f64_eval [of 1021 1]
  by (simp add: binade_top_def grid_def quantum_def round_half_even_def)

lemma to_f64_8: "to_f64 8 = Fin 8"
  using to_f64_eval [of 1024 8]
  by (simp add: binade_top_def grid_def quantum_def round_half_even_def)


lemma to_f64_9_8: "to_f64 (9 / 8) = Fin (9 / 8)"
  using to_f64_eval [of 1021 "9 / 8"]
  by (simp add: binade_top_def grid_def quantum_def round_half_even_def)












lemma fle_to_f64_cases:
  "fle (Fin a) (to_f64 x) \<Longrightarrow> to_f64 x = PosInf \<or> (\<exists>b. to_f64 x = Fin b \<and> a \<le> b)"
  by (cases "to_f64 x") simp_all











subsection \<open>Auxiliary facts about the float64 update\<close>

lemma get_q_val_f64_wf:
  "length (theta_f64 sv) = actions_f64 sv * number_of_features_f64 sv \<Longrightarrow> a < actions_f64 sv \<Longrightarrow>
   length fs = number_of_features_f64 sv \<Longrightarrow>
   get_q_val_f64 sv fs a = Inr (foldl fadd (Fin 0) (map2 fmul fs
      (py_slice (a * number_of_features_f64 sv) ((1 + a) * number_of_features_f64 sv)
         (theta_f64 sv))))"
  using length_py_slice_block [of "theta_f64 sv" "actions_f64 sv" "number_of_features_f64 sv" a]
  by (simp add: get_q_val_f64_def np_dot_f64_def)

lemma q_vals_from_f64_wf:
  assumes "length (theta_f64 sv) = actions_f64 sv * number_of_features_f64 sv"
    and "length fs = number_of_features_f64 sv"
  shows "\<forall>a \<in> set as. a < actions_f64 sv \<Longrightarrow>
    \<exists>qs. q_vals_from_f64 sv fs as = Inr qs \<and> length qs = length as"
proof (induction as)
  case Nil
  then show ?case by simp
next
  case (Cons a as)
  then obtain qs where qs: "q_vals_from_f64 sv fs as = Inr qs" "length qs = length as"
    by auto
  from Cons.prems have "a < actions_f64 sv" by simp
  then obtain q where q: "get_q_val_f64 sv fs a = Inr q"
    using get_q_val_f64_wf [OF assms(1) _ assms(2)] by blast
  with qs show ?case by simp
qed

lemma argmax_scan_f64_bound: "bi < i \<Longrightarrow> argmax_scan_f64 bi bv i xs < i + length xs"
proof (induction xs arbitrary: bi bv i)
  case Nil
  then show ?case by simp
next
  case (Cons x xs)
  have a: "argmax_scan_f64 i x (Suc i) xs < Suc i + length xs"
    by (rule Cons.IH) simp
  have b: "argmax_scan_f64 bi bv (Suc i) xs < Suc i + length xs"
    by (rule Cons.IH) (use Cons.prems in simp)
  from a b Cons.prems show ?case by simp
qed

lemma get_max_action_f64_wf:
  assumes len: "length (theta_f64 sv) = actions_f64 sv * number_of_features_f64 sv"
    and fs: "length (get_features_f64 sv s) = number_of_features_f64 sv"
    and pos: "0 < actions_f64 sv"
  shows "\<exists>k. get_max_action_f64 sv s = Inr k \<and> k < actions_f64 sv"
proof -
  from q_vals_from_f64_wf [OF len fs, of "[0 ..< actions_f64 sv]"] obtain qs where
    qs: "get_all_q_vals_f64 sv (get_features_f64 sv s) = Inr qs" "length qs = actions_f64 sv"
    by (auto simp: get_all_q_vals_f64_def)
  with pos obtain x rest where xr: "qs = x # rest" by (cases qs) auto
  have "argmax_scan_f64 0 x 1 rest < 1 + length rest"
    by (rule argmax_scan_f64_bound) simp
  with qs xr show ?thesis
    by (simp add: get_max_action_f64_def np_argmax_f64_def)
qed

lemma length_block_features_f64:
  assumes "a < A"
  shows "length (block_features_f64 A a fs) = A * length fs"
proof -
  have "(1 + a) * length fs \<le> A * length fs" using block_bound [OF assms] .
  then show ?thesis by (simp add: block_features_f64_def diff_mult_distrib)
qed

lemma nth_block_features_f64:
  assumes "a < A" "i < A * length fs"
  shows "block_features_f64 A a fs ! i =
     (if a * length fs \<le> i \<and> i < (1 + a) * length fs then fs ! (i - a * length fs) else Fin 0)"
proof -
  have "(1 + a) * length fs \<le> A * length fs" using block_bound [OF assms(1)] .
  then have "i - a * length fs - length fs < (A - Suc a) * length fs"
    if "\<not> i < (1 + a) * length fs"
    using that assms(2) by (simp add: diff_mult_distrib)
  then show ?thesis
    by (auto simp: nth_append block_features_f64_def)
qed

lemma state_action_features_f64_wf:
  assumes "a < actions_f64 sv"
  shows "get_state_action_features_f64 sv s a =
     Inr (block_features_f64 (actions_f64 sv) a (get_features_f64 sv s))"
proof -
  let ?n = "length (get_features_f64 sv s)"
  have le: "(1 + a) * ?n \<le> ?n * actions_f64 sv"
    using block_bound [OF assms, of ?n] by (simp add: mult.commute)
  have le2: "a * ?n \<le> ?n * actions_f64 sv"
    using assms by (simp add: mult.commute)
  have eq: "?n * actions_f64 sv - (?n + a * ?n) = (actions_f64 sv - Suc a) * ?n"
    by (simp add: diff_mult_distrib algebra_simps)
  show ?thesis
    using le le2 eq assms
    by (simp add: get_state_action_features_f64_def np_slice_assign_def Let_def min_def max_def
        block_features_f64_def)
qed

lemma update_theta_f64_wf:
  assumes len: "length (theta_f64 sv) = actions_f64 sv * number_of_features_f64 sv"
    and fs: "length (get_features_f64 sv s) = number_of_features_f64 sv"
    and fs': "length (get_features_f64 sv s') = number_of_features_f64 sv"
    and a: "a < actions_f64 sv"
  shows "\<exists>Q target. get_q_val_f64 sv (get_features_f64 sv s) a = Inr Q \<and>
    (dn \<longrightarrow> target = r) \<and>
    update_theta_f64 sv s a r s' dn =
      Inr (fsub target Q,
           sv\<lparr>theta_f64 := map2 fadd (theta_f64 sv)
                  (map (fmul (fmul (learning_rate_f64 sv) (fsub target Q)))
                     (block_features_f64 (actions_f64 sv) a (get_features_f64 sv s)))\<rparr>)"
proof -
  from get_q_val_f64_wf [OF len a fs] obtain Q where
    Q: "get_q_val_f64 sv (get_features_f64 sv s) a = Inr Q" by blast
  note saf = state_action_features_f64_wf [OF a, of s]
  have lsaf: "length (block_features_f64 (actions_f64 sv) a (get_features_f64 sv s)) =
      length (theta_f64 sv)"
    using length_block_features_f64 [OF a, of "get_features_f64 sv s"] len fs by simp
  have add: "np_add_f64 (theta_f64 sv)
        (map f (block_features_f64 (actions_f64 sv) a (get_features_f64 sv s))) =
      Inr (map2 fadd (theta_f64 sv)
        (map f (block_features_f64 (actions_f64 sv) a (get_features_f64 sv s))))" for f
    using lsaf by (simp add: np_add_f64_def)
  show ?thesis
  proof (cases dn)
    case True
    then have "update_theta_f64 sv s a r s' dn =
      Inr (fsub r Q,
           sv\<lparr>theta_f64 := map2 fadd (theta_f64 sv)
                  (map (fmul (fmul (learning_rate_f64 sv) (fsub r Q)))
                     (block_features_f64 (actions_f64 sv) a (get_features_f64 sv s)))\<rparr>)"
      using Q saf add by (simp add: update_theta_f64_def Let_def)
    with Q True show ?thesis by blast
  next
    case False
    from a have pos: "0 < actions_f64 sv" by simp
    from get_max_action_f64_wf [OF len fs' pos] obtain a' where
      a': "get_max_action_f64 sv s' = Inr a'" "a' < actions_f64 sv" by blast
    from get_q_val_f64_wf [OF len a'(2) fs'] obtain q' where
      q': "get_q_val_f64 sv (get_features_f64 sv s') a' = Inr q'" by blast
    have "update_theta_f64 sv s a r s' dn =
      Inr (fsub (fadd r (fmul (gamma_f64 sv) q')) Q,
           sv\<lparr>theta_f64 := map2 fadd (theta_f64 sv)
                  (map (fmul (fmul (learning_rate_f64 sv) (fsub (fadd r (fmul (gamma_f64 sv) q')) Q)))
                     (block_features_f64 (actions_f64 sv) a (get_features_f64 sv s)))\<rparr>)"
      using Q saf add a'(1) q' False by (simp add: update_theta_f64_def Let_def)
    with Q False show ?thesis by blast
  qed
qed

lemma block_of_updated_theta_f64:
  assumes len: "length ws = A * length fs" and a: "a < A" and b: "b < A"
  shows "py_slice (b * length fs) ((1 + b) * length fs)
           (map2 fadd ws (map (fmul c) (block_features_f64 A a fs))) =
     (if b = a
      then map2 fadd (py_slice (a * length fs) ((1 + a) * length fs) ws) (map (fmul c) fs)
      else map (\<lambda>w. fadd w (fmul c (Fin 0))) (py_slice (b * length fs) ((1 + b) * length fs) ws))"
proof -
  let ?F = "length fs"
  let ?ws' = "map2 fadd ws (map (fmul c) (block_features_f64 A a fs))"
  have l: "length (block_features_f64 A a fs) = A * ?F"
    using length_block_features_f64 [OF a] .
  have len': "length ?ws' = A * ?F" using len l by simp
  have lb': "length (py_slice (b * ?F) ((1 + b) * ?F) ?ws') = ?F"
    using length_py_slice_block [OF len' b] .
  have lb: "length (py_slice (b * ?F) ((1 + b) * ?F) ws) = ?F"
    using length_py_slice_block [OF len b] .
  have nth': "py_slice (b * ?F) ((1 + b) * ?F) ?ws' ! j = ?ws' ! (b * ?F + j)" if "j < ?F" for j
    using nth_py_slice_block [OF len' b that] .
  have nth: "py_slice (b * ?F) ((1 + b) * ?F) ws ! j = ws ! (b * ?F + j)" if "j < ?F" for j
    using nth_py_slice_block [OF len b that] .
  have inb: "b * ?F + j < A * ?F" if "j < ?F" for j
    using block_bound [OF b, of ?F] that by simp
  have upd: "?ws' ! i = fadd (ws ! i) (fmul c (block_features_f64 A a fs ! i))" if "i < A * ?F" for i
    using len l that by simp
  show ?thesis
  proof (cases "b = a")
    case True
    have "py_slice (b * ?F) ((1 + b) * ?F) ?ws' =
        map2 fadd (py_slice (a * ?F) ((1 + a) * ?F) ws) (map (fmul c) fs)"
    proof (rule nth_equalityI)
      show "length (py_slice (b * ?F) ((1 + b) * ?F) ?ws') =
          length (map2 fadd (py_slice (a * ?F) ((1 + a) * ?F) ws) (map (fmul c) fs))"
        using lb' lb True by simp
    next
      fix j assume "j < length (py_slice (b * ?F) ((1 + b) * ?F) ?ws')"
      then have j: "j < ?F" using lb' by simp
      have "?ws' ! (a * ?F + j) = fadd (ws ! (a * ?F + j)) (fmul c (fs ! j))"
        using upd [OF inb [OF j]] nth_block_features_f64 [OF a inb [OF j]] True j by simp
      then show "py_slice (b * ?F) ((1 + b) * ?F) ?ws' ! j =
          map2 fadd (py_slice (a * ?F) ((1 + a) * ?F) ws) (map (fmul c) fs) ! j"
        using nth' [OF j] nth [OF j] lb True j by simp
    qed
    with True show ?thesis by simp
  next
    case False
    have "py_slice (b * ?F) ((1 + b) * ?F) ?ws' =
        map (\<lambda>w. fadd w (fmul c (Fin 0))) (py_slice (b * ?F) ((1 + b) * ?F) ws)"
    proof (rule nth_equalityI)
      show "length (py_slice (b * ?F) ((1 + b) * ?F) ?ws') =
          length (map (\<lambda>w. fadd w (fmul c (Fin 0))) (py_slice (b * ?F) ((1 + b) * ?F) ws))"
        using lb' lb by simp
    next
      fix j assume "j < length (py_slice (b * ?F) ((1 + b) * ?F) ?ws')"
      then have j: "j < ?F" using lb' by simp
      have "?ws' ! (b * ?F + j) = fadd (ws ! (b * ?F + j)) (fmul c (Fin 0))"
        using upd [OF inb [OF j]] nth_block_features_f64 [OF a inb [OF j]]
          other_block_disjoint [OF False j] by auto
      then show "py_slice (b * ?F) ((1 + b) * ?F) ?ws' ! j =
          map (\<lambda>w. fadd w (fmul c (Fin 0))) (py_slice (b * ?F) ((1 + b) * ?F) ws) ! j"
        using nth' [OF j] nth [OF j] lb j by simp
    qed
    with False show ?thesis by simp
  qed
qed

lemma fadd_zero_is_f64: "is_f64 w \<Longrightarrow> fadd w (Fin 0) = w"
  by (cases w) (simp_all add: is_f64_def)

lemma fmul_finite_zero: "fmul (Fin c) (Fin 0) = Fin 0"
  by simp





lemma overflow_fields:
  "get_features_f64 overflow_solver s = [Fin 1, Fin (1 / 2)]"
  "learning_rate_f64 overflow_solver = Fin 8"
  "theta_f64 overflow_solver = [Fin 0, Fin 0, Fin 0, Fin 0]"
  "actions_f64 overflow_solver = 2" "number_of_features_f64 overflow_solver = 2"
  by (simp_all add: overflow_solver_def)

subsection \<open>The update rule in float64 arithmetic\<close>

text \<open>
  C2, as amended: on a solver whose weight vector has length \<open>A * F\<close> and holds float64
  values, with feature vectors of length \<open>F\<close> and a taken action \<open>a\<close> below \<open>A\<close>, an
  update keeps the length \<open>A * F\<close> of the weight vector, and when the step size
  \<open>alpha * delta\<close> it computes is finite, the weight block of every other action is
  after the update what it was before.
\<close>

theorem update_theta_f64_frame:
  assumes "length (theta_f64 sv) = actions_f64 sv * number_of_features_f64 sv"
    and "length (get_features_f64 sv s) = number_of_features_f64 sv"
    and "length (get_features_f64 sv s') = number_of_features_f64 sv"
    and "a < actions_f64 sv"
    and "\<forall>w \<in> set (theta_f64 sv). is_f64 w"
  shows "\<exists>delta sv'. update_theta_f64 sv s a r s' dn = Inr (delta, sv') \<and>
    actions_f64 sv' = actions_f64 sv \<and> number_of_features_f64 sv' = number_of_features_f64 sv \<and>
    length (theta_f64 sv') = actions_f64 sv * number_of_features_f64 sv \<and>
    ((\<exists>c. fmul (learning_rate_f64 sv) delta = Fin c) \<longrightarrow>
     (\<forall>b < actions_f64 sv. b \<noteq> a \<longrightarrow>
        py_slice (b * number_of_features_f64 sv) ((1 + b) * number_of_features_f64 sv)
          (theta_f64 sv') =
        py_slice (b * number_of_features_f64 sv) ((1 + b) * number_of_features_f64 sv)
          (theta_f64 sv)))"
proof -
  let ?fs = "get_features_f64 sv s"
  let ?F = "number_of_features_f64 sv"
  from update_theta_f64_wf [OF assms(1-4), of dn r] obtain delta where
    u: "update_theta_f64 sv s a r s' dn =
        Inr (delta, sv\<lparr>theta_f64 := map2 fadd (theta_f64 sv)
                  (map (fmul (fmul (learning_rate_f64 sv) delta))
                     (block_features_f64 (actions_f64 sv) a ?fs))\<rparr>)"
    by blast
  let ?ws' = "map2 fadd (theta_f64 sv)
                  (map (fmul (fmul (learning_rate_f64 sv) delta))
                     (block_features_f64 (actions_f64 sv) a ?fs))"
  have len: "length (theta_f64 sv) = actions_f64 sv * length ?fs" using assms(1,2) by simp
  have l: "length (block_features_f64 (actions_f64 sv) a ?fs) = actions_f64 sv * length ?fs"
    using length_block_features_f64 [OF assms(4)] .
  have len': "length ?ws' = actions_f64 sv * ?F"
    using len l assms(2) by simp
  have fr: "py_slice (b * ?F) ((1 + b) * ?F) ?ws' = py_slice (b * ?F) ((1 + b) * ?F) (theta_f64 sv)"
    if c: "fmul (learning_rate_f64 sv) delta = Fin c" and b: "b < actions_f64 sv" "b \<noteq> a" for c b
  proof -
    have "set (py_slice (b * ?F) ((1 + b) * ?F) (theta_f64 sv)) \<subseteq> set (theta_f64 sv)"
      unfolding py_slice_def by (meson set_take_subset set_drop_subset subset_trans)
    with assms(5) have ok: "\<forall>w \<in> set (py_slice (b * ?F) ((1 + b) * ?F) (theta_f64 sv)). is_f64 w"
      by blast
    have "py_slice (b * ?F) ((1 + b) * ?F) ?ws' =
        map (\<lambda>w. fadd w (fmul (Fin c) (Fin 0))) (py_slice (b * ?F) ((1 + b) * ?F) (theta_f64 sv))"
      using block_of_updated_theta_f64 [OF len assms(4) b(1), of "fmul (learning_rate_f64 sv) delta"]
        b(2) assms(2) c by simp
    also have "\<dots> = map (\<lambda>w. w) (py_slice (b * ?F) ((1 + b) * ?F) (theta_f64 sv))"
      using ok by (intro map_cong) (simp_all add: fadd_zero_is_f64)
    finally show ?thesis by simp
  qed
  have fr2: "(\<exists>c. fmul (learning_rate_f64 sv) delta = Fin c) \<longrightarrow>
     (\<forall>b < actions_f64 sv. b \<noteq> a \<longrightarrow>
        py_slice (b * ?F) ((1 + b) * ?F) ?ws' = py_slice (b * ?F) ((1 + b) * ?F) (theta_f64 sv))"
    using fr by blast
  show ?thesis
    by (rule exI [of _ delta], rule exI [of _ "sv\<lparr>theta_f64 := ?ws'\<rparr>"])
      (use u len' fr2 in simp)
qed

theorem update_theta_f64_frame_witness:
  "\<exists>sv'. update_theta_f64 overflow_solver 0 0 (Fin 1) 0 True = Inr (Fin 1, sv') \<and>
     fmul (learning_rate_f64 overflow_solver) (Fin 1) = Fin 8 \<and>
     length (theta_f64 sv') = 4 \<and>
     py_slice 2 4 (theta_f64 sv') = [Fin 0, Fin 0]"
proof -
  have h: "length (theta_f64 overflow_solver) =
      actions_f64 overflow_solver * number_of_features_f64 overflow_solver"
    "length (get_features_f64 overflow_solver 0) = number_of_features_f64 overflow_solver"
    "length (get_features_f64 overflow_solver 0) = number_of_features_f64 overflow_solver"
    "0 < actions_f64 overflow_solver"
    "\<forall>w \<in> set (theta_f64 overflow_solver). is_f64 w"
    by (simp_all add: overflow_fields is_f64_def)
  from update_theta_f64_frame [OF h, of "Fin 1" True] obtain delta sv' where
    u: "update_theta_f64 overflow_solver 0 0 (Fin 1) 0 True = Inr (delta, sv')"
    and l: "length (theta_f64 sv') =
      actions_f64 overflow_solver * number_of_features_f64 overflow_solver"
    and fr: "(\<exists>c. fmul (learning_rate_f64 overflow_solver) delta = Fin c) \<longrightarrow>
     (\<forall>b < actions_f64 overflow_solver. b \<noteq> 0 \<longrightarrow>
        py_slice (b * number_of_features_f64 overflow_solver)
          ((1 + b) * number_of_features_f64 overflow_solver) (theta_f64 sv') =
        py_slice (b * number_of_features_f64 overflow_solver)
          ((1 + b) * number_of_features_f64 overflow_solver) (theta_f64 overflow_solver))"
    by blast
  have q: "get_q_val_f64 overflow_solver [Fin 1, Fin (1 / 2)] 0 = Inr (Fin 0)"
    by (simp add: get_q_val_f64_def np_dot_f64_def py_slice_def overflow_fields)
  have d: "fsub (Fin 1) (Fin 0) = Fin 1"
    using to_f64_1 by (simp add: fsub_def)
  from update_theta_f64_wf [OF h(1-4), of True "Fin 1"] q d u
  have delta: "delta = Fin 1"
    by (auto simp: overflow_fields simp del: fadd.simps fmul.simps)
  have c: "fmul (learning_rate_f64 overflow_solver) (Fin 1) = Fin 8"
    using to_f64_8 by (simp add: overflow_fields)
  from delta c have "\<exists>c. fmul (learning_rate_f64 overflow_solver) delta = Fin c"
    by blast
  with fr have "\<forall>b < actions_f64 overflow_solver. b \<noteq> 0 \<longrightarrow>
        py_slice (b * number_of_features_f64 overflow_solver)
          ((1 + b) * number_of_features_f64 overflow_solver) (theta_f64 sv') =
        py_slice (b * number_of_features_f64 overflow_solver)
          ((1 + b) * number_of_features_f64 overflow_solver) (theta_f64 overflow_solver)"
    by (rule mp)
  from this [THEN spec, of 1] have "py_slice (1 * number_of_features_f64 overflow_solver)
          ((1 + 1) * number_of_features_f64 overflow_solver) (theta_f64 sv') =
        py_slice (1 * number_of_features_f64 overflow_solver)
          ((1 + 1) * number_of_features_f64 overflow_solver) (theta_f64 overflow_solver)"
    by (simp add: overflow_fields)
  then have "py_slice 2 4 (theta_f64 sv') = [Fin 0, Fin 0]"
    by (simp add: overflow_fields py_slice_def)
  with u delta c l show ?thesis by (simp add: overflow_fields del: fmul.simps)
qed

text \<open>
  C2, as stated, fails where the step size overflows: with the learning rate 8 and
  the terminal reward \<open>2 ^ 1023\<close> the TD error is finite, \<open>alpha * delta\<close> is infinite,
  its product with the zero gradient of the other block is NaN, and the weights of
  that block go from 0 to NaN.
\<close>

theorem update_theta_f64_overflow_counterexample:
  "map_sum id (theta_f64 \<circ> snd)
     (update_theta_f64 overflow_solver 0 0 (Fin (2 ^ 1023)) 0 True) =
     Inr [PosInf, PosInf, NaN, NaN] \<and>
   theta_f64 overflow_solver = [Fin 0, Fin 0, Fin 0, Fin 0] \<and>
   actions_f64 overflow_solver = 2 \<and> number_of_features_f64 overflow_solver = 2"
proof -
  have q: "get_q_val_f64 overflow_solver [Fin 1, Fin (1 / 2)] 0 = Inr (Fin 0)"
    by (simp add: get_q_val_f64_def np_dot_f64_def py_slice_def overflow_solver_def)
  have f: "get_state_action_features_f64 overflow_solver 0 0 =
      Inr [Fin 1, Fin (1 / 2), Fin 0, Fin 0]"
    by (simp add: get_state_action_features_f64_def np_slice_assign_def overflow_solver_def
        numeral_eq_Suc)
  have d: "fsub (Fin (2 ^ 1023)) (Fin 0) = Fin (2 ^ 1023)"
    using to_f64_pow_1023 by (simp add: fsub_def)
  have c: "to_f64 (8 * 2 ^ 1023) = PosInf"
    using to_f64_overflow [of "8 * 2 ^ 1023"] by simp
  have g: "get_features_f64 overflow_solver 0 = [Fin 1, Fin (1 / 2)]"
    "learning_rate_f64 overflow_solver = Fin 8"
    "theta_f64 overflow_solver = [Fin 0, Fin 0, Fin 0, Fin 0]"
    "actions_f64 overflow_solver = 2" "number_of_features_f64 overflow_solver = 2"
    by (simp_all add: overflow_solver_def)
  have "update_theta_f64 overflow_solver 0 0 (Fin (2 ^ 1023)) 0 True =
      Inr (Fin (2 ^ 1023), overflow_solver\<lparr>theta_f64 := [PosInf, PosInf, NaN, NaN]\<rparr>)"
    unfolding update_theta_f64_def Let_def g q f
    by (simp add: np_add_f64_def c d del: power_numeral)
  with g show ?thesis by simp
qed




subsection \<open>The greedy action\<close>



subsection \<open>Reward shaping and the success rate\<close>

text \<open>
  C3: the shaped reward is 100 when the raw reward is 1 and the raw reward minus 1
  otherwise; raw 0 gives -1 and raw -1 gives -2.
\<close>

theorem modify_reward_shaping:
  "modify_reward r = (if r = 1 then 100 else r - 1) \<and> modify_reward 0 = - 1 \<and>
   modify_reward (- 1) = - 2 \<and> modify_reward 1 = 100"
  by (simp add: modify_reward_def Let_def)

text \<open>
  C4: on ten evaluation returns the success rate of the evaluation block is the
  fraction of the returns that differ from the failure return -200; with exactly three
  failures among them it is 0.7.
\<close>

theorem success_rate_fraction:
  assumes "length test_gains = 10"
  shows "success_rate test_gains =
      real (length (filter (\<lambda>g. g \<noteq> - 200) test_gains)) / real (length test_gains) \<and>
    (length (filter (\<lambda>g. g = - 200) test_gains) = 3 \<longrightarrow> success_rate test_gains = 7 / 10)"
  using count_list_complement [of "- 200" test_gains] count_list_filter [of test_gains "- 200"] assms
  by (auto simp add: success_rate_def Let_def)

theorem success_rate_fraction_witness:
  "success_rate [- 200, - 120, - 200, - 99, - 150, - 200, - 101, - 87, - 130, - 111] = 7 / 10"
  using success_rate_fraction
    [of "[- 200, - 120, - 200, - 99, - 150, - 200, - 101, - 87, - 130, - 111]"]
  by simp

text \<open>
  The unused \<^verbatim>\<open>evaluate_criterion\<close> does not compute this fraction: it returns a tenth
  of the second gain.
\<close>

lemma evaluate_criterion_SR_second_gain:
  "length test_gains = 10 \<Longrightarrow> evaluate_criterion_SR test_gains = Inr (test_gains ! 1 / 10)"
  by (simp add: evaluate_criterion_SR_def)

subsection \<open>Auxiliary facts about the episode loop\<close>


lemma loop_body_Inr:
  assumes "loop_body env rng is_train epsilon ep = Inr (ep', ns, dn)"
  shows "\<exists>a r' reward1 e'.
    choose_action env rng epsilon (ep_solver ep) (state ep) (ep_rng ep) = Inr (a, r') \<and>
    env_step env a (ep_env ep) = ((ns, reward1, dn), e') \<and>
    ep_env ep' = e' \<and> ep_rng ep' = r' \<and> state ep' = state ep \<and>
    step ep' = Suc (step ep) \<and>
    episode_gain ep' = episode_gain ep + modify_reward reward1 \<and>
    history ep' = history ep @ [(a, modify_reward reward1, dn)] \<and>
    (if is_train
     then \<exists>delta. update_theta (ep_solver ep) (state ep) a (modify_reward reward1) ns dn =
              Inr (delta, ep_solver ep') \<and> deltas ep' = deltas ep @ [delta]
     else ep_solver ep' = ep_solver ep \<and> deltas ep' = deltas ep)"
proof -
  from assms obtain a r' where
    ch: "choose_action env rng epsilon (ep_solver ep) (state ep) (ep_rng ep) = Inr (a, r')"
    by (auto simp: loop_body_def bindE_eq_Inr)
  obtain ns0 reward1 dn0 e' where
    st: "env_step env a (ep_env ep) = ((ns0, reward1, dn0), e')"
    by (metis prod.exhaust)
  show ?thesis
  proof (cases is_train)
    case True
    with assms ch st show ?thesis
      by (auto simp: loop_body_def Let_def bindE_eq_Inr)
  next
    case False
    with assms ch st show ?thesis
      by (auto simp: loop_body_def Let_def bindE_eq_Inr)
  qed
qed


lemma length_updated_theta:
  assumes "length ws = A * length fs" "a < A"
  shows "length (map2 (+) ws (map f (block_features A a fs))) = A * length fs"
  using length_state_action_features [OF assms(2), of fs] assms(1)
  by (simp add: block_features_def)

lemma update_theta_ok:
  assumes ok: "solver_ok sv" and a: "a < actions sv"
  shows "\<exists>delta sv'. update_theta sv s a r s' dn = Inr (delta, sv') \<and> solver_ok sv' \<and>
    actions sv' = actions sv"
proof -
  from ok have len: "length (theta sv) = actions sv * number_of_features sv"
    and fs: "length (get_features sv s) = number_of_features sv"
    and fs': "length (get_features sv s') = number_of_features sv"
    by (simp_all add: solver_ok_def)
  from update_theta_wf [OF len fs fs' a, of dn r] obtain delta where
    u: "update_theta sv s a r s' dn =
        Inr (delta, sv\<lparr>theta := map2 (+) (theta sv)
                  (map (\<lambda>g. learning_rate sv * delta * g)
                     (block_features (actions sv) a (get_features sv s)))\<rparr>)"
    by blast
  have "length (map2 (+) (theta sv) (map (\<lambda>g. learning_rate sv * delta * g)
      (block_features (actions sv) a (get_features sv s)))) = actions sv * number_of_features sv"
    using length_updated_theta [of "theta sv" "actions sv" "get_features sv s" a] len fs a
    by simp
  with ok have "solver_ok (sv\<lparr>theta := map2 (+) (theta sv)
                  (map (\<lambda>g. learning_rate sv * delta * g)
                     (block_features (actions sv) a (get_features sv s)))\<rparr>)"
    by (simp add: solver_ok_def)
  with u show ?thesis by simp
qed

lemma get_max_action_ok:
  assumes "solver_ok sv"
  shows "\<exists>a. get_max_action sv s = Inr a \<and> a < actions sv"
proof -
  from assms have "length (theta sv) = actions sv * number_of_features sv"
    "length (get_features sv s) = number_of_features sv" "0 < actions sv"
    by (simp_all add: solver_ok_def)
  from get_max_action_wf [OF this] show ?thesis by blast
qed

lemma choose_action_ok:
  assumes ok: "solver_ok sv" and rng: "rng_ok rng" and n: "action_space_n env = actions sv"
  shows "\<exists>a r'. choose_action env rng epsilon sv s r = Inr (a, r') \<and> a < actions sv"
proof -
  from get_max_action_ok [OF ok, of s] obtain g where
    g: "get_max_action sv s = Inr g" "g < actions sv" by blast
  show ?thesis
  proof (cases epsilon)
    case None
    with g show ?thesis by (simp add: choose_action_def)
  next
    case (Some eps)
    obtain u r1 where u: "np_uniform rng 0 1 r = (u, r1)" by (metis prod.exhaust)
    show ?thesis
    proof (cases "u < eps")
      case True
      from ok n have pos: "0 < action_space_n env" by (simp add: solver_ok_def)
      obtain c r2 where c: "choice rng (action_space_n env) r1 = (c, r2)" by (metis prod.exhaust)
      from rng pos have "fst (choice rng (action_space_n env) r1) < action_space_n env"
        by (simp add: rng_ok_def)
      with c n have "c < actions sv" by simp
      with Some u True pos c show ?thesis
        by (simp add: choose_action_def np_choice_def)
    next
      case False
      with Some u g show ?thesis by (simp add: choose_action_def)
    qed
  qed
qed

lemma loop_body_ok:
  assumes ok: "solver_ok (ep_solver ep)" and rng: "rng_ok rng"
    and n: "action_space_n env = actions (ep_solver ep)"
  shows "\<exists>ep' ns dn. loop_body env rng is_train epsilon ep = Inr (ep', ns, dn) \<and>
    solver_ok (ep_solver ep') \<and> actions (ep_solver ep') = actions (ep_solver ep)"
proof -
  from choose_action_ok [OF ok rng n, of epsilon "state ep" "ep_rng ep"] obtain a r' where
    ch: "choose_action env rng epsilon (ep_solver ep) (state ep) (ep_rng ep) = Inr (a, r')"
      "a < actions (ep_solver ep)" by blast
  obtain ns reward1 dn e' where
    st: "env_step env a (ep_env ep) = ((ns, reward1, dn), e')"
    by (metis prod.exhaust)
  show ?thesis
  proof (cases is_train)
    case True
    from update_theta_ok [OF ok ch(2), of "state ep" "modify_reward reward1" ns dn]
    obtain delta sv' where
      u: "update_theta (ep_solver ep) (state ep) a (modify_reward reward1) ns dn = Inr (delta, sv')"
        "solver_ok sv'" "actions sv' = actions (ep_solver ep)" by blast
    with True ch st show ?thesis
      by (simp add: loop_body_def Let_def)
  next
    case False
    with ch st ok show ?thesis
      by (simp add: loop_body_def Let_def)
  qed
qed

lemma run_loop_terminates:
  "int (step ep) < max_steps \<Longrightarrow> nat (max_steps - int (step ep)) \<le> fuel \<Longrightarrow>
   \<exists>res. run_loop fuel env rng is_train epsilon max_steps ep = Some res"
proof (induction fuel arbitrary: ep)
  case 0
  then show ?case by simp
next
  case (Suc fuel)
  show ?case
  proof (cases "loop_body env rng is_train epsilon ep")
    case (Inl e)
    then show ?thesis by simp
  next
    case (Inr t)
    then obtain ep' ns dn where t: "loop_body env rng is_train epsilon ep = Inr (ep', ns, dn)"
      by (cases t) auto
    from loop_body_Inr [OF t] have st: "step ep' = Suc (step ep)" by blast
    show ?thesis
    proof (cases "dn \<or> int (step ep') = max_steps")
      case True
      with t show ?thesis by simp
    next
      case False
      with st Suc.prems have "int (step (ep'\<lparr>state := ns\<rparr>)) < max_steps"
        "nat (max_steps - int (step (ep'\<lparr>state := ns\<rparr>))) \<le> fuel" by simp_all
      from Suc.IH [OF this] t False show ?thesis by simp
    qed
  qed
qed

lemma run_loop_ok:
  "solver_ok (ep_solver ep) \<Longrightarrow> rng_ok rng \<Longrightarrow> action_space_n env = actions (ep_solver ep) \<Longrightarrow>
   run_loop fuel env rng is_train epsilon max_steps ep = Some res \<Longrightarrow> \<exists>ep'. res = Inr ep'"
proof (induction fuel arbitrary: ep)
  case 0
  then show ?case by simp
next
  case (Suc fuel)
  from loop_body_ok [OF Suc.prems(1-3), of is_train epsilon] obtain ep' ns dn where
    t: "loop_body env rng is_train epsilon ep = Inr (ep', ns, dn)" "solver_ok (ep_solver ep')"
      "actions (ep_solver ep') = actions (ep_solver ep)" by blast
  show ?case
  proof (cases "dn \<or> int (step ep') = max_steps")
    case True
    with t(1) Suc.prems(4) show ?thesis by auto
  next
    case False
    have "solver_ok (ep_solver (ep'\<lparr>state := ns\<rparr>))"
      "action_space_n env = actions (ep_solver (ep'\<lparr>state := ns\<rparr>))"
      using t(2,3) Suc.prems(3) by simp_all
    from Suc.IH [OF this(1) Suc.prems(2) this(2)] t(1) False Suc.prems(4) show ?thesis by simp
  qed
qed




lemma run_loop_deltas:
  "run_loop fuel env rng is_train epsilon max_steps ep = Some (Inr ep'') \<Longrightarrow>
   (if is_train then \<exists>ds. deltas ep'' = deltas ep @ ds \<and> step ep'' = step ep + length ds
    else deltas ep'' = deltas ep \<and> ep_solver ep'' = ep_solver ep)"
proof (induction fuel arbitrary: ep)
  case 0
  then show ?case by simp
next
  case (Suc fuel)
  from Suc.prems(1) obtain ep' ns dn where
    t: "loop_body env rng is_train epsilon ep = Inr (ep', ns, dn)"
    by (auto split: sum.splits)
  from loop_body_Inr [OF t] have
    b: "step ep' = Suc (step ep)"
      "if is_train then \<exists>delta. deltas ep' = deltas ep @ [delta]
       else ep_solver ep' = ep_solver ep \<and> deltas ep' = deltas ep"
    by (auto split: if_splits)
  show ?case
  proof (cases "dn \<or> int (step ep') = max_steps")
    case True
    with t Suc.prems have "ep'' = ep'" by simp
    with b show ?thesis by (auto split: if_splits)
  next
    case False
    with t Suc.prems(1) have
      r: "run_loop fuel env rng is_train epsilon max_steps (ep'\<lparr>state := ns\<rparr>) = Some (Inr ep'')"
      by simp
    from Suc.IH [OF r] b show ?thesis
      by (auto split: if_splits)
  qed
qed

lemma map_sum_id_eq_Inl: "map_sum id f x = Inl e \<longleftrightarrow> x = Inl e"
  by (cases x) auto

lemma map_sum_id_eq_Inr: "map_sum id f x = Inr y \<longleftrightarrow> (\<exists>z. x = Inr z \<and> f z = y)"
  by (cases x) auto

lemma choose_action_greedy:
  assumes "\<forall>r. 0 \<le> fst (random_sample rng r)" and "epsilon = None \<or> epsilon = Some 0"
  shows "map_sum id fst (choose_action env rng epsilon sv s r) = get_max_action sv s"
proof (cases epsilon)
  case None
  then show ?thesis
    by (cases "get_max_action sv s") (simp_all add: choose_action_def)
next
  case (Some eps)
  with assms(2) have eps: "eps = 0" by simp
  obtain u r' where u: "random_sample rng r = (u, r')" by (metis prod.exhaust)
  with assms(1) have "0 \<le> u" by (metis fst_conv)
  with Some eps u show ?thesis
    by (cases "get_max_action sv s") (simp_all add: choose_action_def np_uniform_def)
qed

lemma loop_body_without_rng:
  assumes rng: "\<forall>r. 0 \<le> fst (random_sample rng r)"
    and e1: "eps1 = None \<or> eps1 = Some 0" and e2: "eps2 = None \<or> eps2 = Some 0"
    and eq: "without_rng ep1 = without_rng ep2"
  shows "map_sum id (\<lambda>(ep', ns, dn). (without_rng ep', ns, dn))
           (loop_body env rng is_train eps1 ep1) =
         map_sum id (\<lambda>(ep', ns, dn). (without_rng ep', ns, dn))
           (loop_body env rng is_train eps2 ep2)"
proof -
  from eq have f: "ep_solver ep2 = ep_solver ep1" "ep_env ep2 = ep_env ep1" "state ep2 = state ep1"
    "step ep2 = step ep1" "episode_gain ep2 = episode_gain ep1" "deltas ep2 = deltas ep1"
    "history ep2 = history ep1"
    by (simp_all add: without_rng_def)
  have c1: "map_sum id fst (choose_action env rng eps1 (ep_solver ep1) (state ep1) (ep_rng ep1)) =
      get_max_action (ep_solver ep1) (state ep1)"
    using choose_action_greedy [OF rng e1] .
  have c2: "map_sum id fst (choose_action env rng eps2 (ep_solver ep1) (state ep1) (ep_rng ep2)) =
      get_max_action (ep_solver ep1) (state ep1)"
    using choose_action_greedy [OF rng e2] .
  show ?thesis
  proof (cases "get_max_action (ep_solver ep1) (state ep1)")
    case (Inl e)
    with c1 c2 have
      "choose_action env rng eps1 (ep_solver ep1) (state ep1) (ep_rng ep1) = Inl e"
      "choose_action env rng eps2 (ep_solver ep1) (state ep1) (ep_rng ep2) = Inl e"
      by (simp_all add: map_sum_id_eq_Inl)
    then show ?thesis by (simp add: loop_body_def f)
  next
    case (Inr a)
    with c1 c2 obtain r1 r2 where
      ch: "choose_action env rng eps1 (ep_solver ep1) (state ep1) (ep_rng ep1) = Inr (a, r1)"
        "choose_action env rng eps2 (ep_solver ep1) (state ep1) (ep_rng ep2) = Inr (a, r2)"
      by (auto simp: map_sum_id_eq_Inr)
    obtain ns reward1 dn e' where
      st: "env_step env a (ep_env ep1) = ((ns, reward1, dn), e')"
      by (metis prod.exhaust)
    show ?thesis
    proof (cases is_train)
      case True
      show ?thesis
      proof (cases "update_theta (ep_solver ep1) (state ep1) a (modify_reward reward1) ns dn")
        case (Inl e)
        with True ch st show ?thesis by (simp add: loop_body_def f Let_def)
      next
        case (Inr p)
        then obtain delta sv' where
          "update_theta (ep_solver ep1) (state ep1) a (modify_reward reward1) ns dn = Inr (delta, sv')"
          by (cases p) auto
        with True ch st show ?thesis
          by (simp add: loop_body_def f Let_def without_rng_def)
      qed
    next
      case False
      with ch st show ?thesis
        by (simp add: loop_body_def f Let_def without_rng_def)
    qed
  qed
qed

lemma run_loop_without_rng:
  assumes rng: "\<forall>r. 0 \<le> fst (random_sample rng r)"
    and e1: "eps1 = None \<or> eps1 = Some 0" and e2: "eps2 = None \<or> eps2 = Some 0"
  shows "without_rng ep1 = without_rng ep2 \<Longrightarrow>
    map_option (map_sum id without_rng) (run_loop fuel env rng is_train eps1 max_steps ep1) =
    map_option (map_sum id without_rng) (run_loop fuel env rng is_train eps2 max_steps ep2)"
proof (induction fuel arbitrary: ep1 ep2)
  case 0
  then show ?case by simp
next
  case (Suc fuel)
  note lb = loop_body_without_rng [OF rng e1 e2 Suc.prems, of env is_train]
  show ?case
  proof (cases "loop_body env rng is_train eps1 ep1")
    case (Inl e)
    with lb have "loop_body env rng is_train eps2 ep2 = Inl e"
      by (cases "loop_body env rng is_train eps2 ep2") auto
    with Inl show ?thesis by simp
  next
    case (Inr t)
    then obtain ep1' ns dn where
      t1: "loop_body env rng is_train eps1 ep1 = Inr (ep1', ns, dn)" by (cases t) auto
    with lb obtain ep2' where
      t2: "loop_body env rng is_train eps2 ep2 = Inr (ep2', ns, dn)"
      and eq': "without_rng ep1' = without_rng ep2'"
      by (cases "loop_body env rng is_train eps2 ep2") auto
    from eq' have st: "step ep2' = step ep1'" by (simp add: without_rng_def)
    show ?thesis
    proof (cases "dn \<or> int (step ep1') = max_steps")
      case True
      with t1 t2 st eq' show ?thesis by auto
    next
      case False
      from eq' have "without_rng (ep1'\<lparr>state := ns\<rparr>) = without_rng (ep2'\<lparr>state := ns\<rparr>)"
        by (simp add: without_rng_def)
      from Suc.IH [OF this] t1 t2 st False show ?thesis by simp
    qed
  qed
qed

lemma observed_run_episode:
  "observed (run_episode fuel env rng sv is_train epsilon max_steps e r) =
   map_option (map_sum id
     (\<lambda>(sv', e', s, n, g, ds, h). ((g, np_mean ds), map fst h, (sv', e', s, n, g, ds, h))))
     (map_option (map_sum id without_rng)
        (run_loop fuel env rng is_train epsilon max_steps (init_episode env rng sv is_train e r)))"
  by (simp add: observed_def run_episode_def option.map_comp sum.map_comp comp_def
      without_rng_def)

lemma init_episode_without_rng:
  assumes "fst (start_state env rng is_train r1) = fst (start_state env rng is_train r2)"
  shows "without_rng (init_episode env rng sv is_train e r1) =
    without_rng (init_episode env rng sv is_train e r2)"
  using assms
  by (auto simp: init_episode_def without_rng_def split: prod.splits)

lemma run_loop_episode_steps:
  "run_loop fuel env rng is_train epsilon max_steps ep = Some (Inr ep'') \<Longrightarrow>
   \<exists>rewards ds.
     episode_steps env rng is_train epsilon max_steps
       (ep_solver ep) (ep_env ep) (ep_rng ep) (state ep) (step ep) rewards ds
       (ep_solver ep'') (ep_env ep'') (ep_rng ep'') \<and>
     episode_gain ep'' = episode_gain ep + sum_list rewards \<and>
     deltas ep'' = deltas ep @ ds \<and>
     step ep'' = step ep + length rewards \<and> rewards \<noteq> [] \<and>
     (if is_train then length ds = length rewards else ds = [])"
proof (induction fuel arbitrary: ep)
  case 0
  then show ?case by simp
next
  case (Suc fuel)
  from Suc.prems(1) obtain ep' ns dn where
    t: "loop_body env rng is_train epsilon ep = Inr (ep', ns, dn)"
    by (auto split: sum.splits)
  from loop_body_Inr [OF t] obtain a r' reward1 e' where
    b: "choose_action env rng epsilon (ep_solver ep) (state ep) (ep_rng ep) = Inr (a, r')"
      "env_step env a (ep_env ep) = ((ns, reward1, dn), e')"
      "ep_env ep' = e'" "ep_rng ep' = r'" "step ep' = Suc (step ep)"
      "episode_gain ep' = episode_gain ep + modify_reward reward1"
      "if is_train
       then \<exists>delta. update_theta (ep_solver ep) (state ep) a (modify_reward reward1) ns dn =
              Inr (delta, ep_solver ep') \<and> deltas ep' = deltas ep @ [delta]
       else ep_solver ep' = ep_solver ep \<and> deltas ep' = deltas ep"
    by blast
  define ds where "ds = (if is_train then [last (deltas ep')] else [])"
  have u: "if is_train
      then \<exists>delta. update_theta (ep_solver ep) (state ep) a (modify_reward reward1) ns dn =
             Inr (delta, ep_solver ep') \<and> ds = [delta]
      else ep_solver ep' = ep_solver ep \<and> ds = []"
    using b(7) by (auto simp: ds_def split: if_splits)
  have d: "deltas ep' = deltas ep @ ds" "if is_train then length ds = 1 else ds = []"
    using b(7) by (auto simp: ds_def split: if_splits)
  show ?case
  proof (cases "dn \<or> int (step ep') = max_steps")
    case True
    with t Suc.prems have eq: "ep'' = ep'" by simp
    from True b(5) have ex: "dn \<or> int (Suc (step ep)) = max_steps" by simp
    have "episode_steps env rng is_train epsilon max_steps
       (ep_solver ep) (ep_env ep) (ep_rng ep) (state ep) (step ep) [modify_reward reward1] ds
       (ep_solver ep') e' r'"
      using episode_steps.last_step [OF b(1) b(2) u ex] .
    with eq b d show ?thesis
      by (intro exI [of _ "[modify_reward reward1]"] exI [of _ ds]) (auto split: if_splits)
  next
    case False
    with t Suc.prems(1) have
      r: "run_loop fuel env rng is_train epsilon max_steps (ep'\<lparr>state := ns\<rparr>) = Some (Inr ep'')"
      by simp
    from False b(5) have nex: "\<not> (dn \<or> int (Suc (step ep)) = max_steps)" by simp
    from Suc.IH [OF r] obtain rewards ds' where
      n: "episode_steps env rng is_train epsilon max_steps
            (ep_solver ep') (ep_env ep') (ep_rng ep') ns (step ep') rewards ds'
            (ep_solver ep'') (ep_env ep'') (ep_rng ep'')"
        "episode_gain ep'' = episode_gain ep' + sum_list rewards"
        "deltas ep'' = deltas ep' @ ds'"
        "step ep'' = step ep' + length rewards" "rewards \<noteq> []"
        "if is_train then length ds' = length rewards else ds' = []"
      by auto
    from n(1) b(3,4,5) have n1: "episode_steps env rng is_train epsilon max_steps
            (ep_solver ep') e' r' ns (Suc (step ep)) rewards ds'
            (ep_solver ep'') (ep_env ep'') (ep_rng ep'')" by simp
    have "episode_steps env rng is_train epsilon max_steps
       (ep_solver ep) (ep_env ep) (ep_rng ep) (state ep) (step ep)
       (modify_reward reward1 # rewards) (ds @ ds')
       (ep_solver ep'') (ep_env ep'') (ep_rng ep'')"
      using episode_steps.next_step [OF b(1) b(2) u nex n1] .
    with n b d show ?thesis
      by (intro exI [of _ "modify_reward reward1 # rewards"] exI [of _ "ds @ ds'"])
        (auto split: if_splits)
  qed
qed

lemma demo_ok:
  "solver_ok demo_solver" "rng_ok demo_rng" "action_space_n demo_env = actions demo_solver"
  "action_space_n endless_env = actions demo_solver"
  by (simp_all add: solver_ok_def rng_ok_def demo_solver_def demo_rng_def demo_env_def
      endless_env_def)

subsection \<open>The episode loop\<close>



text \<open>
  C6: whenever \<open>run_episode\<close> returns, the episode it ran is one of the per-step
  procedure from the start state it drew and reset the environment to: the first
  component returned is the sum of the shaped rewards of its steps; in training mode
  one TD error of \<open>update_theta\<close> is recorded per step and the second component is
  their mean; in evaluation mode no update is made, nothing is recorded, the second
  component is undefined (NaN) and the solver is the one passed in. With well-formed
  collaborators, a step budget of at least one and enough fuel it does return.
\<close>

theorem run_episode_returns:
  "(\<forall>g m ep' pos vel r0 s0 e0.
      run_episode fuel env rng sv is_train epsilon max_steps e r = Some (Inr ((g, m), ep')) \<and>
      start_state env rng is_train r = ((pos, vel), r0) \<and>
      reset_specific env pos vel e = (s0, e0) \<longrightarrow>
      (\<exists>rewards ds.
         episode_steps env rng is_train epsilon max_steps sv e0 r0 s0 0 rewards ds
           (ep_solver ep') (ep_env ep') (ep_rng ep') \<and>
         g = sum_list rewards \<and> rewards \<noteq> [] \<and> length rewards = step ep' \<and>
         (if is_train
          then length ds = length rewards \<and> m = Some (sum_list ds / real (length ds))
          else ds = [] \<and> m = None \<and> ep_solver ep' = sv))) \<and>
   (solver_ok sv \<and> rng_ok rng \<and> action_space_n env = actions sv \<and> 1 \<le> max_steps \<and>
    nat max_steps \<le> fuel \<longrightarrow>
      (\<exists>g m ep'. run_episode fuel env rng sv is_train epsilon max_steps e r =
         Some (Inr ((g, m), ep'))))"
proof -
  let ?ep = "init_episode env rng sv is_train e r"
  have i: "step ?ep = 0" "episode_gain ?ep = 0" "deltas ?ep = []" "ep_solver ?ep = sv"
    by (simp_all add: init_episode_def split: prod.splits)
  have a: "\<exists>rewards ds.
         episode_steps env rng is_train epsilon max_steps sv e0 r0 s0 0 rewards ds
           (ep_solver ep') (ep_env ep') (ep_rng ep') \<and>
         g = sum_list rewards \<and> rewards \<noteq> [] \<and> length rewards = step ep' \<and>
         (if is_train
          then length ds = length rewards \<and> m = Some (sum_list ds / real (length ds))
          else ds = [] \<and> m = None \<and> ep_solver ep' = sv)"
    if ret: "run_episode fuel env rng sv is_train epsilon max_steps e r = Some (Inr ((g, m), ep'))"
      and st: "start_state env rng is_train r = ((pos, vel), r0)"
      and rs: "reset_specific env pos vel e = (s0, e0)"
    for g m ep' pos vel r0 s0 e0
  proof -
    from st rs have j: "ep_env ?ep = e0" "ep_rng ?ep = r0" "state ?ep = s0"
      by (simp_all add: init_episode_def)
    from ret have rl: "run_loop fuel env rng is_train epsilon max_steps ?ep = Some (Inr ep')"
      and g: "g = episode_gain ep'" and m: "m = np_mean (deltas ep')"
      by (auto simp: run_episode_def map_sum_id_eq_Inr)
    from run_loop_episode_steps [OF rl] obtain rewards ds where
      h: "episode_steps env rng is_train epsilon max_steps
           (ep_solver ?ep) (ep_env ?ep) (ep_rng ?ep) (state ?ep) (step ?ep) rewards ds
           (ep_solver ep') (ep_env ep') (ep_rng ep')"
        "episode_gain ep' = episode_gain ?ep + sum_list rewards"
        "deltas ep' = deltas ?ep @ ds"
        "step ep' = step ?ep + length rewards" "rewards \<noteq> []"
        "if is_train then length ds = length rewards else ds = []"
      by blast
    from h(1) i j have es: "episode_steps env rng is_train epsilon max_steps sv e0 r0 s0 0
        rewards ds (ep_solver ep') (ep_env ep') (ep_rng ep')" by simp
    from h(2,3,4) i g m have v: "g = sum_list rewards" "m = np_mean ds"
      "length rewards = step ep'" by simp_all
    from run_loop_deltas [OF rl] i have
      d: "\<not> is_train \<longrightarrow> ep_solver ep' = sv"
      by (auto split: if_splits)
    show ?thesis
    proof (cases is_train)
      case True
      with h(5,6) have "ds \<noteq> []" by auto
      with True es v h(5,6) show ?thesis
        by (intro exI [of _ rewards] exI [of _ ds]) (simp add: np_mean_def)
    next
      case False
      with es v h(5,6) d show ?thesis
        by (intro exI [of _ rewards] exI [of _ ds]) (simp add: np_mean_def)
    qed
  qed
  have b: "\<exists>g m ep'. run_episode fuel env rng sv is_train epsilon max_steps e r =
         Some (Inr ((g, m), ep'))"
    if "solver_ok sv" "rng_ok rng" "action_space_n env = actions sv" "1 \<le> max_steps"
      "nat max_steps \<le> fuel"
  proof -
    from that(4,5) i have "int (step ?ep) < max_steps" "nat (max_steps - int (step ?ep)) \<le> fuel"
      by simp_all
    from run_loop_terminates [OF this] obtain res where
      res: "run_loop fuel env rng is_train epsilon max_steps ?ep = Some res" by blast
    from that(1,3) i have "solver_ok (ep_solver ?ep)" "action_space_n env = actions (ep_solver ?ep)"
      by simp_all
    from run_loop_ok [OF this(1) that(2) this(2) res] obtain ep' where "res = Inr ep'" by blast
    with res show ?thesis by (simp add: run_episode_def)
  qed
  from a b show ?thesis by blast
qed

theorem run_episode_returns_witness:
  "(\<exists>ep' rewards ds. run_episode 200 demo_env demo_rng demo_solver True None 200 0 0 =
      Some (Inr ((99, Some (1953 / 40)), ep')) \<and>
      episode_steps demo_env demo_rng True None 200 demo_solver 0 2 0 0 rewards ds
        (ep_solver ep') (ep_env ep') (ep_rng ep') \<and>
      sum_list rewards = 99 \<and> length ds = length rewards \<and>
      sum_list ds / real (length ds) = 1953 / 40) \<and>
   (\<exists>ep' rewards. run_episode 200 demo_env demo_rng demo_solver False None 200 0 0 =
      Some (Inr ((99, None), ep')) \<and> ep_solver ep' = demo_solver \<and>
      episode_steps demo_env demo_rng False None 200 demo_solver 0 1 0 0 rewards []
        (ep_solver ep') (ep_env ep') (ep_rng ep') \<and>
      sum_list rewards = 99)"
proof -
  have h: "solver_ok demo_solver \<and> rng_ok demo_rng \<and>
      action_space_n demo_env = actions demo_solver \<and> (1::int) \<le> 200 \<and> nat 200 \<le> (200::nat)"
    using demo_ok by simp
  note tr = run_episode_returns [of 200 demo_env demo_rng demo_solver True None 200 0 0]
  note ev = run_episode_returns [of 200 demo_env demo_rng demo_solver False None 200 0 0]
  have s1: "start_state demo_env demo_rng True 0 = ((- (71 / 200), 0), 2)"
    by (simp add: start_state_def np_uniform_def demo_rng_def demo_env_def)
  have s2: "start_state demo_env demo_rng False 0 = ((- (1 / 2), 0), 1)"
    by (simp add: start_state_def np_uniform_def demo_rng_def demo_env_def)
  have rs: "reset_specific demo_env p v 0 = (0, 0)" for p v
    by (simp add: demo_env_def)
  from tr [THEN conjunct2, THEN mp, OF h] obtain g1 m1 ep1 where
    t1: "run_episode 200 demo_env demo_rng demo_solver True None 200 0 0 =
      Some (Inr ((g1, m1), ep1))"
    by blast
  have "map_option (map_sum id fst)
      (run_episode 200 demo_env demo_rng demo_solver True None 200 0 0) =
      Some (Inr (99, Some (1953 / 40)))"
    by code_simp
  with t1 have v1: "g1 = 99" "m1 = Some (1953 / 40)"
    by simp_all
  from tr [THEN conjunct1, THEN spec, THEN spec, THEN spec, THEN spec, THEN spec, THEN spec,
      THEN spec, THEN spec, THEN mp, OF conjI [OF t1 conjI [OF s1 rs]]]
  obtain rewards1 ds1 where
    p1: "episode_steps demo_env demo_rng True None 200 demo_solver 0 2 0 0 rewards1 ds1
        (ep_solver ep1) (ep_env ep1) (ep_rng ep1)"
      "g1 = sum_list rewards1" "length ds1 = length rewards1"
      "m1 = Some (sum_list ds1 / real (length ds1))"
    by auto
  from ev [THEN conjunct2, THEN mp, OF h] obtain g2 m2 ep2 where
    t2: "run_episode 200 demo_env demo_rng demo_solver False None 200 0 0 =
      Some (Inr ((g2, m2), ep2))"
    by blast
  have "map_option (map_sum id fst)
      (run_episode 200 demo_env demo_rng demo_solver False None 200 0 0) = Some (Inr (99, None))"
    by code_simp
  with t2 have v2: "g2 = 99" "m2 = None" by simp_all
  from ev [THEN conjunct1, THEN spec, THEN spec, THEN spec, THEN spec, THEN spec, THEN spec,
      THEN spec, THEN spec, THEN mp, OF conjI [OF t2 conjI [OF s2 rs]]]
  obtain rewards2 where
    p2: "episode_steps demo_env demo_rng False None 200 demo_solver 0 1 0 0 rewards2 []
        (ep_solver ep2) (ep_env ep2) (ep_rng ep2)"
      "g2 = sum_list rewards2" "ep_solver ep2 = demo_solver"
    by auto
  from t1 v1 p1 have "\<exists>ep' rewards ds. run_episode 200 demo_env demo_rng demo_solver True None 200 0 0 =
      Some (Inr ((99, Some (1953 / 40)), ep')) \<and>
      episode_steps demo_env demo_rng True None 200 demo_solver 0 2 0 0 rewards ds
        (ep_solver ep') (ep_env ep') (ep_rng ep') \<and>
      sum_list rewards = 99 \<and> length ds = length rewards \<and>
      sum_list ds / real (length ds) = 1953 / 40"
    by (intro exI [of _ ep1] exI [of _ rewards1] exI [of _ ds1]) simp
  moreover from t2 v2 p2 have "\<exists>ep' rewards. run_episode 200 demo_env demo_rng demo_solver False None 200 0 0 =
      Some (Inr ((99, None), ep')) \<and> ep_solver ep' = demo_solver \<and>
      episode_steps demo_env demo_rng False None 200 demo_solver 0 1 0 0 rewards []
        (ep_solver ep') (ep_env ep') (ep_rng ep') \<and>
      sum_list rewards = 99"
    by (intro exI [of _ ep2] exI [of _ rewards2]) simp
  ultimately show ?thesis by (rule conjI)
qed

text \<open>
  C9: with no epsilon or epsilon 0, two runs of an episode from the same start state,
  environment and solver yield the same result, the same sequence of actions and the
  same returned values, whatever the state of the random generator.
\<close>

theorem run_episode_deterministic:
  assumes "\<forall>r. 0 \<le> fst (random_sample rng r)"
    and "eps1 = None \<or> eps1 = Some 0" and "eps2 = None \<or> eps2 = Some 0"
    and "fst (start_state env rng is_train r1) = fst (start_state env rng is_train r2)"
  shows "observed (run_episode fuel env rng sv is_train eps1 max_steps e r1) =
    observed (run_episode fuel env rng sv is_train eps2 max_steps e r2)"
proof -
  have "without_rng (init_episode env rng sv is_train e r1) =
      without_rng (init_episode env rng sv is_train e r2)"
    using init_episode_without_rng [OF assms(4)] .
  from run_loop_without_rng [OF assms(1-3) this] show ?thesis
    by (simp only: observed_run_episode)
qed

theorem run_episode_deterministic_witness:
  "observed (run_episode 200 demo_env demo_rng demo_solver False None 200 0 0) =
   observed (run_episode 200 demo_env demo_rng demo_solver False (Some 0) 200 0 7) \<and>
   map_option (map_sum id (\<lambda>(ret, acts, rest). (ret, acts)))
     (observed (run_episode 200 demo_env demo_rng demo_solver False (Some 0) 200 0 7)) =
   Some (Inr ((99, None), [1, 1]))"
proof -
  have h: "\<forall>r. 0 \<le> fst (random_sample demo_rng r)"
    "fst (start_state demo_env demo_rng False 0) = fst (start_state demo_env demo_rng False 7)"
    by (simp_all add: demo_rng_def start_state_def np_uniform_def)
  have e: "(None :: real option) = None \<or> (None :: real option) = Some 0"
    "Some (0::real) = None \<or> Some (0::real) = Some 0" by simp_all
  have v: "map_option (map_sum id (\<lambda>(ret, acts, rest). (ret, acts)))
     (observed (run_episode 200 demo_env demo_rng demo_solver False (Some 0) 200 0 7)) =
     Some (Inr ((99, None), [1, 1]))"
    by code_simp
  from run_episode_deterministic [OF h(1) e h(2), of 200 demo_solver 200 0] v
  show ?thesis by simp
qed



end
